theory Spec2Isabelle
  imports Main "HOL-Library.Multiset"
begin

section \<open>Strings and regular-expression helpers\<close>

text \<open>
  A JavaScript string is a sequence of UTF-16 code units. It is modelled as a
  \<open>string\<close>: one \<open>char\<close> stands for one code unit, so the model covers the
  strings whose code units are below 256 (ASCII and Latin-1). Within that range the line
  terminators of the regular-expression dot are LF and CR, and the white space of
  \<^verbatim>\<open>\s\<close> and of \<^verbatim>\<open>trim\<close> is TAB, LF, VT, FF, CR, SPACE and NBSP.
\<close>

definition is_digit :: "char \<Rightarrow> bool" where
  "is_digit c \<longleftrightarrow> c \<in> set ''0123456789''"

definition is_line_terminator :: "char \<Rightarrow> bool" where
  "is_line_terminator c \<longleftrightarrow> c = CHR 0x0A \<or> c = CHR 0x0D"

definition is_white_space :: "char \<Rightarrow> bool" where
  "is_white_space c \<longleftrightarrow> c \<in> {CHR 0x09, CHR 0x0A, CHR 0x0B, CHR 0x0C, CHR 0x0D, CHR 0x20, CHR 0xA0}"

text \<open>
  Matching under the \<^verbatim>\<open>i\<close> flag compares canonicalised code units; a code unit
  outside ASCII never canonicalises to an ASCII letter, so against a pattern of ASCII
  letters only the ASCII case pairs are identified.
\<close>

definition ascii_lower :: "char \<Rightarrow> char" where
  "ascii_lower c =
     (case map_of (zip ''ABCDEFGHIJKLMNOPQRSTUVWXYZ'' ''abcdefghijklmnopqrstuvwxyz'') c of
        Some d \<Rightarrow> d
      | None \<Rightarrow> c)"

text \<open>
  \<^verbatim>\<open>String.prototype.toLowerCase\<close> on code units below 256: the ASCII capitals and
  the Latin-1 capitals U+00C0 to U+00DE (U+00D7, the multiplication sign, is not a letter)
  move up by 32; every other code unit is unchanged.
\<close>

definition latin1_upper :: string where
  "latin1_upper =
     [CHR 0xC0, CHR 0xC1, CHR 0xC2, CHR 0xC3, CHR 0xC4, CHR 0xC5, CHR 0xC6, CHR 0xC7,
      CHR 0xC8, CHR 0xC9, CHR 0xCA, CHR 0xCB, CHR 0xCC, CHR 0xCD, CHR 0xCE, CHR 0xCF,
      CHR 0xD0, CHR 0xD1, CHR 0xD2, CHR 0xD3, CHR 0xD4, CHR 0xD5, CHR 0xD6, CHR 0xD8,
      CHR 0xD9, CHR 0xDA, CHR 0xDB, CHR 0xDC, CHR 0xDD, CHR 0xDE]"

definition latin1_lower :: string where
  "latin1_lower =
     [CHR 0xE0, CHR 0xE1, CHR 0xE2, CHR 0xE3, CHR 0xE4, CHR 0xE5, CHR 0xE6, CHR 0xE7,
      CHR 0xE8, CHR 0xE9, CHR 0xEA, CHR 0xEB, CHR 0xEC, CHR 0xED, CHR 0xEE, CHR 0xEF,
      CHR 0xF0, CHR 0xF1, CHR 0xF2, CHR 0xF3, CHR 0xF4, CHR 0xF5, CHR 0xF6, CHR 0xF8,
      CHR 0xF9, CHR 0xFA, CHR 0xFB, CHR 0xFC, CHR 0xFD, CHR 0xFE]"

definition lower_char :: "char \<Rightarrow> char" where
  "lower_char c =
     (case map_of (zip (''ABCDEFGHIJKLMNOPQRSTUVWXYZ'' @ latin1_upper)
                       (''abcdefghijklmnopqrstuvwxyz'' @ latin1_lower)) c of
        Some d \<Rightarrow> d
      | None \<Rightarrow> c)"

definition toLowerCase :: "string \<Rightarrow> string" where
  "toLowerCase s = map lower_char s"

text \<open>\<^verbatim>\<open>s.includes(t)\<close>: \<open>t\<close> occurs in \<open>s\<close> as a contiguous substring.\<close>

fun str_includes :: "string \<Rightarrow> string \<Rightarrow> bool" where
  "str_includes [] t = (t = [])"
| "str_includes (c # cs) t = (take (length t) (c # cs) = t \<or> str_includes cs t)"

text \<open>
  The lazy group \<^verbatim>\<open>(.+?)\<close> followed by the rest of a pattern that is anchored at the
  end of the input. The matcher extends the group one character at a time (never over a
  line terminator) and stops at the first length at which the rest of the pattern,
  given as the predicate \<open>tail\<close> on the remaining input, matches. The result is the
  group and the remaining input.
\<close>

fun lazy_dot_plus :: "(string \<Rightarrow> bool) \<Rightarrow> string \<Rightarrow> string \<Rightarrow> (string \<times> string) option" where
  "lazy_dot_plus tail acc [] = (if tail [] then Some (acc, []) else None)"
| "lazy_dot_plus tail acc (c # cs) =
     (if tail (c # cs) then Some (acc, c # cs)
      else if is_line_terminator c then None
      else lazy_dot_plus tail (acc @ [c]) cs)"

definition dot_plus_lazy :: "(string \<Rightarrow> bool) \<Rightarrow> string \<Rightarrow> (string \<times> string) option" where
  "dot_plus_lazy tail s =
     (case s of
        [] \<Rightarrow> None
      | c # cs \<Rightarrow> if is_line_terminator c then None else lazy_dot_plus tail [c] cs)"

section \<open>Identifier normalizer\<close>

record NormalizedArxivId =
  canonical :: string
  version :: "nat option"
  versioned :: "string option"

text \<open>The rest of \<^verbatim>\<open>/arxiv\.org\/(?:abs|pdf)\/(.+?)(?:\.pdf)?$/i\<close> after the group.\<close>

definition pdf_tail :: "string \<Rightarrow> bool" where
  "pdf_tail t \<longleftrightarrow> map ascii_lower t = ''.pdf'' \<or> t = []"

text \<open>The rest of \<^verbatim>\<open>/^(.+?)(?:v(\d+))?$/\<close> after the group.\<close>

definition version_tail :: "string \<Rightarrow> bool" where
  "version_tail t \<longleftrightarrow>
     (case t of
        [] \<Rightarrow> True
      | c # ds \<Rightarrow> c = CHR ''v'' \<and> ds \<noteq> [] \<and> list_all is_digit ds)"

definition marker_at :: "string \<Rightarrow> bool" where
  "marker_at s \<longleftrightarrow>
     (let m = map ascii_lower (take 14 s)
      in m = ''arxiv.org/abs/'' \<or> m = ''arxiv.org/pdf/'')"

text \<open>
  The unanchored search of \<^verbatim>\<open>idOrUrl.match(...)\<close>: the leftmost position at which
  the whole pattern matches; the value is capture group 1.
\<close>

fun url_match :: "string \<Rightarrow> string option" where
  "url_match [] = None"
| "url_match (c # cs) =
     (case (if marker_at (c # cs) then dot_plus_lazy pdf_tail (drop 14 (c # cs)) else None) of
        Some (g, t) \<Rightarrow> Some g
      | None \<Rightarrow> url_match cs)"

text \<open>
  \<^verbatim>\<open>Number.parseInt(versionStr, 10)\<close> on a string of decimal digits. The result of
  the source is a double: it is the decimal value of the digits as long as that value is
  below \<open>2^53\<close>, and a rounding of it, chosen by the engine, from there on. \<open>parseInt\<close>
  is the decimal value; it is the number the source holds only below \<open>2^53\<close>, and
  nothing is stated about the number of a longer digit string.
\<close>

definition digit_val :: "char \<Rightarrow> nat" where
  "digit_val c = of_char c - 48"

definition parseInt :: "string \<Rightarrow> nat" where
  "parseInt ds = foldl (\<lambda>a c. 10 * a + digit_val c) 0 ds"

definition normalizeArxivId :: "string \<Rightarrow> NormalizedArxivId" where
  "normalizeArxivId idOrUrl =
     (let id = (case url_match idOrUrl of Some g \<Rightarrow> g | None \<Rightarrow> idOrUrl)
      in case dot_plus_lazy version_tail id of
           None \<Rightarrow> \<lparr>canonical = id, version = None, versioned = None\<rparr>
         | Some (canon, t) \<Rightarrow>
             (case t of
                [] \<Rightarrow> \<lparr>canonical = canon, version = None, versioned = None\<rparr>
              | v # versionStr \<Rightarrow>
                  \<lparr>canonical = canon, version = Some (parseInt versionStr),
                   versioned = Some id\<rparr>))"

section \<open>Query builder\<close>

datatype sort_by = relevance | lastUpdatedDate | submittedDate

datatype sort_order = ascending | descending

record ArxivSearchOptions =
  maxResults :: "nat option"
  start :: "nat option"
  sortBy :: "sort_by option"
  sortOrder :: "sort_order option"
  categories :: "string list option"

definition sort_by_string :: "sort_by \<Rightarrow> string" where
  "sort_by_string b =
     (case b of relevance \<Rightarrow> ''relevance''
      | lastUpdatedDate \<Rightarrow> ''lastUpdatedDate''
      | submittedDate \<Rightarrow> ''submittedDate'')"

definition sort_order_string :: "sort_order \<Rightarrow> string" where
  "sort_order_string d = (case d of ascending \<Rightarrow> ''ascending'' | descending \<Rightarrow> ''descending'')"

text \<open>
  \<^verbatim>\<open>Number.prototype.toString\<close> on a non-negative integer below \<open>10^21\<close>, where
  the source switches to exponent notation; the arguments here are result counts and HTTP
  status codes.
\<close>

fun nat_to_string :: "nat \<Rightarrow> string" where
  "nat_to_string n =
     (if n < 10 then [''0123456789'' ! n]
      else nat_to_string (n div 10) @ [''0123456789'' ! (n mod 10)])"

text \<open>\<^verbatim>\<open>Array.prototype.join\<close> on strings.\<close>

fun join :: "string \<Rightarrow> string list \<Rightarrow> string" where
  "join sep [] = []"
| "join sep [x] = x"
| "join sep (x # y # ys) = x @ sep @ join sep (y # ys)"

definition is_alnum :: "char \<Rightarrow> bool" where
  "is_alnum c \<longleftrightarrow>
     c \<in> set ''ABCDEFGHIJKLMNOPQRSTUVWXYZabcdefghijklmnopqrstuvwxyz0123456789''"

text \<open>The UTF-8 bytes of a code unit below 256, and the percent escape of a byte.\<close>

definition utf8_bytes :: "char \<Rightarrow> nat list" where
  "utf8_bytes c =
     (let n = (of_char c :: nat)
      in if n < 128 then [n] else [192 + n div 64, 128 + n mod 64])"

definition percent_byte :: "nat \<Rightarrow> string" where
  "percent_byte b = [CHR ''%'', ''0123456789ABCDEF'' ! (b div 16), ''0123456789ABCDEF'' ! (b mod 16)]"

definition percent_escape :: "char \<Rightarrow> string" where
  "percent_escape c = concat (map percent_byte (utf8_bytes c))"

text \<open>
  \<^verbatim>\<open>encodeURIComponent\<close>: letters, digits and \<^verbatim>\<open>- _ . ! ~ * ' ( )\<close> are kept,
  every other code unit is percent-escaped.
\<close>

definition uri_unreserved :: "char \<Rightarrow> bool" where
  "uri_unreserved c \<longleftrightarrow> is_alnum c \<or> c \<in> set ''-_.!~*()'' \<or> c = CHR 0x27"

definition encodeURIComponent :: "string \<Rightarrow> string" where
  "encodeURIComponent s = concat (map (\<lambda>c. if uri_unreserved c then [c] else percent_escape c) s)"

text \<open>
  \<^verbatim>\<open>URLSearchParams.prototype.toString\<close>: the application/x-www-form-urlencoded
  serializer keeps letters, digits and \<^verbatim>\<open>* - . _\<close>, writes a space as
  \<^verbatim>\<open>+\<close> and percent-escapes every other byte; pairs are written
  \<^verbatim>\<open>name=value\<close> and joined by \<^verbatim>\<open>&\<close>.
\<close>

definition form_encode :: "string \<Rightarrow> string" where
  "form_encode s =
     concat (map (\<lambda>c. if is_alnum c \<or> c \<in> set ''*-._'' then [c]
                        else if c = CHR '' '' then ''+''
                        else percent_escape c) s)"

definition params_toString :: "(string \<times> string) list \<Rightarrow> string" where
  "params_toString ps = join ''&'' (map (\<lambda>(k, v). form_encode k @ ''='' @ form_encode v) ps)"

text \<open>
  The value handed to \<^verbatim>\<open>params.set("search_query", ...)\<close>, that is, what one
  decoding of the parameter of the built URL gives back.
\<close>

definition search_query_param :: "string \<Rightarrow> string list option \<Rightarrow> string" where
  "search_query_param query cats =
     (let searchQuery =
        (case cats of
           Some (c # cs) \<Rightarrow>
             (let categoryFilter = join ''+OR+'' (map (\<lambda>cat. ''cat:'' @ cat) (c # cs))
              in ''('' @ encodeURIComponent query @ '')+AND+('' @ categoryFilter @ '')'')
         | _ \<Rightarrow> encodeURIComponent query)
      in ''all:'' @ searchQuery)"

definition buildArxivQueryUrl :: "string \<Rightarrow> ArxivSearchOptions \<Rightarrow> string" where
  "buildArxivQueryUrl query options =
     (let maxResults' = (case maxResults options of Some n \<Rightarrow> n | None \<Rightarrow> 10);
          start' = (case start options of Some n \<Rightarrow> n | None \<Rightarrow> 0);
          sortBy' = (case sortBy options of Some b \<Rightarrow> b | None \<Rightarrow> relevance);
          sortOrder' = (case sortOrder options of Some d \<Rightarrow> d | None \<Rightarrow> descending);
          params =
            [(''search_query'', search_query_param query (categories options)),
             (''start'', nat_to_string start'),
             (''max_results'', nat_to_string maxResults'),
             (''sortBy'', sort_by_string sortBy'),
             (''sortOrder'', sort_order_string sortOrder')]
      in ''https://export.arxiv.org/api/query?'' @ params_toString params)"

text \<open>
  What the specification asks of the \<^verbatim>\<open>search_query\<close> parameter, in its own words:
  \<^verbatim>\<open>all:\<close> followed by the raw query, or by
  \<^verbatim>\<open>(query) AND (cat:C1 OR cat:C2 ...)\<close> when categories are given.
\<close>

definition spec_search_query :: "string \<Rightarrow> string list option \<Rightarrow> string" where
  "spec_search_query query cats =
     (case cats of
        Some (c # cs) \<Rightarrow>
          ''all:('' @ query @ '') AND ('' @ join '' OR '' (map (\<lambda>cat. ''cat:'' @ cat) (c # cs)) @ '')''
      | _ \<Rightarrow> ''all:'' @ query)"

section \<open>Feed parser\<close>

text \<open>
  The XML parser is a library outside the repository. It is a parameter of the model: a
  function from the document text to the parsed tree, or to \<open>Inl\<close> when it throws.

  The source casts the fields of the tree to \<^verbatim>\<open>string | undefined\<close>, but a cast
  checks nothing at run time. With the options the source passes, the parser keeps
  attribute values as strings, and turns the content of an element into a number or a
  boolean when it reads as one (\<^verbatim>\<open><title>2024</title>\<close> gives the number 2024) and
  into an object when the element has attributes or children. So the content of an
  element is an \<open>xml_value\<close>: a string, or a value that is no string, of which only its
  truthiness matters (\<open>0\<close> and \<open>false\<close> are falsy; every other number, \<open>true\<close> and
  every object are truthy). An absent element is \<open>None\<close>.
\<close>

datatype xml_value = Str (text_of: string) | NonStr bool

record AtomLink =
  href :: "string option"
  rel :: "string option"
  link_type :: "string option"

record AtomAuthor =
  author_name :: "xml_value option"

record AtomCategory =
  category_term :: "string option"

record AtomEntry =
  entry_id :: "xml_value option"
  entry_title :: "xml_value option"
  entry_published :: "xml_value option"
  entry_updated :: "xml_value option"
  entry_summary :: "xml_value option"
  entry_author :: "AtomAuthor list option"
  entry_link :: "AtomLink list option"
  entry_category :: "AtomCategory list option"

record AtomFeed =
  feed_entry :: "AtomEntry list option"

record AtomDocument =
  feed :: "AtomFeed option"

type_synonym xml_parser = "string \<Rightarrow> unit + AtomDocument"

text \<open>
  The record of a paper. \<open>authors\<close>, \<open>published\<close> and \<open>updated\<close> are copied from
  the tree without a method call, so they hold whatever value the tree held.
\<close>

record ArxivPaper =
  arxivId :: string
  arxivIdVersioned :: "string option"
  paper_version :: "nat option"
  title :: string
  authors :: "xml_value list"
  published :: xml_value
  updated :: "xml_value option"
  abstract :: string
  url :: string
  categories_of :: "string list option"
  pdfUrl :: "string option"

text \<open>
  The truthiness test \<^verbatim>\<open>if (x)\<close>: on a value that is a string or undefined, and on
  the content of an element.
\<close>

definition truthy :: "string option \<Rightarrow> bool" where
  "truthy v \<longleftrightarrow> (case v of None \<Rightarrow> False | Some s \<Rightarrow> s \<noteq> [])"

definition truthy_value :: "xml_value \<Rightarrow> bool" where
  "truthy_value v \<longleftrightarrow> (case v of Str s \<Rightarrow> s \<noteq> [] | NonStr b \<Rightarrow> b)"

definition truthy_field :: "xml_value option \<Rightarrow> bool" where
  "truthy_field v \<longleftrightarrow> (case v of None \<Rightarrow> False | Some x \<Rightarrow> truthy_value x)"

text \<open>\<^verbatim>\<open>s.replace(/\s+/g, " ")\<close>: every maximal run of white space becomes one space.\<close>

fun collapse_ws :: "bool \<Rightarrow> string \<Rightarrow> string" where
  "collapse_ws in_run [] = []"
| "collapse_ws in_run (c # cs) =
     (if is_white_space c
      then (if in_run then collapse_ws True cs else CHR '' '' # collapse_ws True cs)
      else c # collapse_ws False cs)"

definition trim :: "string \<Rightarrow> string" where
  "trim s = rev (dropWhile is_white_space (rev (dropWhile is_white_space s)))"

definition clean_text :: "string \<Rightarrow> string" where
  "clean_text s = trim (collapse_ws False s)"

definition author_names :: "AtomAuthor list \<Rightarrow> xml_value list" where
  "author_names as =
     concat (map (\<lambda>a. if truthy_field (author_name a) then [the (author_name a)] else []) as)"

definition category_terms :: "AtomCategory list \<Rightarrow> string list" where
  "category_terms cs = concat (map (\<lambda>c. if truthy (category_term c) then [the (category_term c)] else []) cs)"

text \<open>One round of the loop over the links; the state is \<open>(url, pdfUrl)\<close>.\<close>

definition link_step :: "string \<times> string option \<Rightarrow> AtomLink \<Rightarrow> string \<times> string option" where
  "link_step acc link =
     (let url1 = (if rel link = Some ''alternate'' \<and> link_type link = Some ''text/html''
                  then (case href link of Some h \<Rightarrow> h | None \<Rightarrow> fst acc)
                  else fst acc);
          pdf1 = (if link_type link = Some ''application/pdf'' then href link else snd acc)
      in (url1, pdf1))"

definition resolve_links :: "string \<Rightarrow> AtomLink list option \<Rightarrow> string \<times> string option" where
  "resolve_links idElement links =
     (case links of
        None \<Rightarrow> (idElement, None)
      | Some ls \<Rightarrow> foldl link_step (idElement, None) ls)"

text \<open>
  A call of a string method on a value that is no string throws a \<^verbatim>\<open>TypeError\<close>:
  \<^verbatim>\<open>idOrUrl.match\<close> inside the normalizer, \<^verbatim>\<open>title.replace\<close>, and
  \<^verbatim>\<open>abstract?.replace\<close>, which is skipped only when the summary is absent. The
  three tests \<^verbatim>\<open>if (!x) return null\<close> run before the method call on the same value, so
  a falsy value of any kind is a missing field. \<open>Inl\<close> is the throw, \<open>Inr None\<close> the
  return of \<^verbatim>\<open>null\<close>.
\<close>

datatype thrown = TypeError

definition parseEntry :: "AtomEntry \<Rightarrow> thrown + ArxivPaper option" where
  "parseEntry entry =
     (if \<not> truthy_field (entry_id entry) then Inr None
      else case the (entry_id entry) of
        NonStr b \<Rightarrow> Inl TypeError
      | Str idElement \<Rightarrow>
     (let normalizedId = normalizeArxivId idElement
      in if \<not> truthy_field (entry_title entry) then Inr None
      else case the (entry_title entry) of
        NonStr b \<Rightarrow> Inl TypeError
      | Str title1 \<Rightarrow>
     (let cleanTitle = clean_text title1;
          authors1 = (case entry_author entry of None \<Rightarrow> [] | Some as \<Rightarrow> author_names as)
      in if \<not> truthy_field (entry_published entry) then Inr None
      else let published1 = the (entry_published entry)
      in case entry_summary entry of
        Some (NonStr b) \<Rightarrow> Inl TypeError
      | summary \<Rightarrow>
     (let cleanAbstract = (case summary of None \<Rightarrow> [] | Some a \<Rightarrow> clean_text (text_of a));
          lk = resolve_links idElement (entry_link entry);
          categories1 = (case entry_category entry of None \<Rightarrow> [] | Some cs \<Rightarrow> category_terms cs)
      in Inr (Some \<lparr>arxivId = canonical normalizedId,
               arxivIdVersioned = versioned normalizedId,
               paper_version = version normalizedId,
               title = cleanTitle,
               authors = authors1,
               published = published1,
               updated = entry_updated entry,
               abstract = cleanAbstract,
               url = fst lk,
               categories_of = (if categories1 \<noteq> [] then Some categories1 else None),
               pdfUrl = snd lk\<rparr>)))))"

text \<open>
  The loop over the entries. Each round runs inside \<^verbatim>\<open>try\<close>: a parsed entry is
  pushed, an entry for which \<open>parseEntry\<close> returns \<^verbatim>\<open>null\<close> or throws is skipped.
\<close>

fun parse_entries :: "AtomEntry list \<Rightarrow> ArxivPaper list" where
  "parse_entries [] = []"
| "parse_entries (e # es) =
     (case parseEntry e of
        Inr (Some paper) \<Rightarrow> paper # parse_entries es
      | Inr None \<Rightarrow> parse_entries es
      | Inl error \<Rightarrow> parse_entries es)"

definition parseArxivAtom :: "xml_parser \<Rightarrow> string \<Rightarrow> ArxivPaper list" where
  "parseArxivAtom parse xml =
     (case parse xml of
        Inl error \<Rightarrow> []
      | Inr parsed \<Rightarrow>
          (case feed parsed of
             None \<Rightarrow> []
           | Some f \<Rightarrow>
               (case feed_entry f of
                  None \<Rightarrow> []
                | Some entries \<Rightarrow> if entries = [] then [] else parse_entries entries)))"


text \<open>
  The entries the loop keeps: the id and the title are non-empty strings, the published
  element is present with a truthy value, and the summary is absent or a string.
\<close>

definition nonempty_string :: "xml_value option \<Rightarrow> bool" where
  "nonempty_string v \<longleftrightarrow> (case v of Some (Str s) \<Rightarrow> s \<noteq> [] | _ \<Rightarrow> False)"

definition absent_or_string :: "xml_value option \<Rightarrow> bool" where
  "absent_or_string v \<longleftrightarrow> (case v of Some (NonStr b) \<Rightarrow> False | _ \<Rightarrow> True)"

definition well_formed :: "AtomEntry \<Rightarrow> bool" where
  "well_formed e \<longleftrightarrow>
     nonempty_string (entry_id e) \<and> nonempty_string (entry_title e)
     \<and> truthy_field (entry_published e) \<and> absent_or_string (entry_summary e)"

text \<open>The two tests of the loop over the links.\<close>

definition is_alternate_html :: "AtomLink \<Rightarrow> bool" where
  "is_alternate_html l \<longleftrightarrow> rel l = Some ''alternate'' \<and> link_type l = Some ''text/html''"

definition is_pdf_link :: "AtomLink \<Rightarrow> bool" where
  "is_pdf_link l \<longleftrightarrow> link_type l = Some ''application/pdf''"

text \<open>
  The PDF URL in the words of the specification: the href of the first link typed as
  PDF, absent when there is no such link.
\<close>

definition spec_pdfUrl :: "AtomLink list \<Rightarrow> string option" where
  "spec_pdfUrl ls = (case filter is_pdf_link ls of [] \<Rightarrow> None | l # _ \<Rightarrow> href l)"

section \<open>Fetch client\<close>

text \<open>
  The network is a parameter: \<open>fetchImpl\<close> maps the requested URL to a rejected promise
  or to a response with its \<^verbatim>\<open>ok\<close> flag, status, status text and body. The tool
  layer passes no options, so the optional delay before the request never runs.
\<close>

datatype fetch_reply = Rejected | Response bool nat string string

datatype arxiv_error = ArxivNetworkError | ArxivHttpError nat string

definition fetchArxivPaperById ::
  "(string \<Rightarrow> fetch_reply) \<Rightarrow> xml_parser \<Rightarrow> string \<Rightarrow> arxiv_error + ArxivPaper option" where
  "fetchArxivPaperById fetchImpl parse arxivId1 =
     (let normalized = normalizeArxivId arxivId1;
          url1 = ''https://export.arxiv.org/api/query?id_list='' @ canonical normalized
      in case fetchImpl url1 of
           Rejected \<Rightarrow> Inl ArxivNetworkError
         | Response ok status statusText body \<Rightarrow>
             if \<not> ok then Inl (ArxivHttpError status statusText)
             else (case parseArxivAtom parse body of
                     [] \<Rightarrow> Inr None
                   | paper # _ \<Rightarrow> Inr (Some paper)))"

section \<open>Library store, summary cache and tool layer\<close>

text \<open>
  The two tables of the agent's SQL store. A row of \<^verbatim>\<open>saved_papers\<close> holds the
  values bound to the insert, its JSON columns decoded: \<^verbatim>\<open>authors_json\<close> and
  \<^verbatim>\<open>tags_json\<close> are written by \<^verbatim>\<open>JSON.stringify\<close> of an array and read back by
  \<^verbatim>\<open>JSON.parse\<close>.
  \<^verbatim>\<open>paper_summaries\<close> is keyed by its primary key. The agent also owns the preview
  shown by the user interface. \<open>requested\<close> records the URLs asked of the network, in
  order, so that a theorem can say that an operation fetched nothing.
\<close>

record SavedPaperRow =
  arxiv_id :: string
  row_title :: string
  row_authors :: "xml_value list"
  row_published :: xml_value
  row_updated :: xml_value
  row_abstract :: string
  row_url :: string
  row_tags :: "string list"
  saved_at :: nat

record SummaryRow =
  summary_md :: string
  created_at :: nat

record LibraryPreviewItem =
  preview_arxivId :: string
  preview_title :: string
  preview_savedAt :: nat
  preview_tags :: "string list"

record agent =
  saved_papers :: "SavedPaperRow list"
  paper_summaries :: "string \<rightharpoonup> SummaryRow"
  libraryPreview :: "LibraryPreviewItem list"
  requested :: "string list"

text \<open>
  What a call receives from outside: the network, the XML parser, the clock, the text
  generation service (\<open>None\<close> when it fails; the prompt is a function of the paper),
  for each SQL statement of the tool layer, whether the storage engine throws on it, and
  the answer of the storage engine to \<^verbatim>\<open>ORDER BY saved_at DESC\<close>. SQL fixes that answer
  only up to the order of the rows saved at the same instant, and the source adds no
  second sort key; so \<open>order_desc\<close> maps the rows of the table, in insertion order, to the
  order in which the engine returns them, and a theorem that depends on the order assumes
  of it what SQL guarantees (\<open>orders_desc\<close> below), nothing about ties.
\<close>

datatype sql_statement =
  SelectRecent | SelectSummary | ReplaceSummary | SelectExisting | UpdateTags
  | InsertPaper | SelectAll | SelectTitle | DeletePaper

record env =
  fetchImpl :: "string \<Rightarrow> fetch_reply"
  xml_parse :: xml_parser
  now :: nat
  generateText :: "ArxivPaper \<Rightarrow> string option"
  sql_throws :: "sql_statement \<Rightarrow> bool"
  order_desc :: "SavedPaperRow list \<Rightarrow> SavedPaperRow list"

definition orders_desc :: "(SavedPaperRow list \<Rightarrow> SavedPaperRow list) \<Rightarrow> SavedPaperRow list \<Rightarrow> bool" where
  "orders_desc engine rows \<longleftrightarrow>
     mset (engine rows) = mset rows
     \<and> sorted_wrt (\<lambda>x y. saved_at y \<le> saved_at x) (engine rows)"

text \<open>
  One such engine: a backward scan of an index on \<^verbatim>\<open>saved_at\<close>, as SQLite runs the
  query over \<^verbatim>\<open>idx_saved_papers_saved_at\<close>. Rows saved at the same instant come out
  in reverse insertion order.
\<close>

definition backward_index_scan :: "SavedPaperRow list \<Rightarrow> SavedPaperRow list" where
  "backward_index_scan rows = rev (sort_key saved_at rows)"

definition SUMMARY_PROMPT_VERSION :: string where
  "SUMMARY_PROMPT_VERSION = ''v1''"

definition summaryKey :: "string \<Rightarrow> string" where
  "summaryKey arxivId1 = arxivId1 @ '':'' @ SUMMARY_PROMPT_VERSION"

definition preview_of :: "SavedPaperRow \<Rightarrow> LibraryPreviewItem" where
  "preview_of row =
     \<lparr>preview_arxivId = arxiv_id row, preview_title = row_title row,
      preview_savedAt = saved_at row, preview_tags = row_tags row\<rparr>"

definition updateLibraryPreview :: "env \<Rightarrow> agent \<Rightarrow> agent" where
  "updateLibraryPreview e a =
     (if sql_throws e SelectRecent then a
      else a\<lparr>libraryPreview := map preview_of (take 10 (order_desc e (saved_papers a)))\<rparr>)"

text \<open>The fetch of the tool layer: the request is recorded, then answered by the network.\<close>

definition request_url :: "string \<Rightarrow> string" where
  "request_url arxivId1 =
     ''https://export.arxiv.org/api/query?id_list='' @ canonical (normalizeArxivId arxivId1)"

definition fetch_paper :: "env \<Rightarrow> agent \<Rightarrow> string \<Rightarrow> (arxiv_error + ArxivPaper option) \<times> agent" where
  "fetch_paper e a arxivId1 =
     (fetchArxivPaperById (fetchImpl e) (xml_parse e) arxivId1,
      a\<lparr>requested := requested a @ [request_url arxivId1]\<rparr>)"

definition quoted :: "string \<Rightarrow> string" where
  "quoted s = [CHR 0x27] @ s @ [CHR 0x27]"

definition connect_message :: string where
  "connect_message = ''Failed to connect to arXiv. Please try again later.''"

definition http_message :: "nat \<Rightarrow> string" where
  "http_message status =
     ''arXiv returned an error (HTTP '' @ nat_to_string status @ ''). Please try again.''"

definition not_found_message :: "string \<Rightarrow> string" where
  "not_found_message i =
     ''Paper with arXiv ID '' @ quoted i @ '' not found. Please check the ID and try again.''"

subsection \<open>summarizePaper\<close>

record SummarizePaperResult =
  sum_arxivId :: string
  sum_title :: "string option"
  summaryMd :: string
  cached :: bool
  sum_error :: "string option"

definition summarizePaper :: "env \<Rightarrow> agent \<Rightarrow> string \<Rightarrow> SummarizePaperResult \<times> agent" where
  "summarizePaper e a arxivId1 =
     (let cacheKey = summaryKey arxivId1;
          hit = (if sql_throws e SelectSummary then None else paper_summaries a cacheKey)
      in case hit of
           Some row \<Rightarrow>
             (\<lparr>sum_arxivId = arxivId1, sum_title = None, summaryMd = summary_md row,
               cached = True, sum_error = None\<rparr>, a)
         | None \<Rightarrow>
             (case fetch_paper e a arxivId1 of
                (Inl ArxivNetworkError, a1) \<Rightarrow>
                  (\<lparr>sum_arxivId = arxivId1, sum_title = None, summaryMd = [],
                    cached = False, sum_error = Some connect_message\<rparr>, a1)
              | (Inl (ArxivHttpError status statusText), a1) \<Rightarrow>
                  (\<lparr>sum_arxivId = arxivId1, sum_title = None, summaryMd = [],
                    cached = False, sum_error = Some (http_message status)\<rparr>, a1)
              | (Inr None, a1) \<Rightarrow>
                  (\<lparr>sum_arxivId = arxivId1, sum_title = None, summaryMd = [],
                    cached = False, sum_error = Some (not_found_message arxivId1)\<rparr>, a1)
              | (Inr (Some paper), a1) \<Rightarrow>
                  (case generateText e paper of
                     None \<Rightarrow>
                       (\<lparr>sum_arxivId = arxivId1, sum_title = Some (title paper), summaryMd = [],
                         cached = False,
                         sum_error = Some ''Failed to generate summary. Please try again.''\<rparr>, a1)
                   | Some text1 \<Rightarrow>
                       (let a2 = (if sql_throws e ReplaceSummary then a1
                                  else a1\<lparr>paper_summaries := (paper_summaries a1)
                                         (cacheKey \<mapsto> \<lparr>summary_md = text1, created_at = now e\<rparr>)\<rparr>)
                        in (\<lparr>sum_arxivId = arxivId1, sum_title = Some (title paper),
                             summaryMd = text1, cached = False, sum_error = None\<rparr>, a2)))))"

subsection \<open>savePaper\<close>

record SavePaperResult =
  save_arxivId :: string
  save_title :: string
  save_tags :: "string list"
  save_savedAt :: nat
  wasAlreadySaved :: bool
  save_error :: "string option"

text \<open>
  \<^verbatim>\<open>Array.from(new Set(xs))\<close>: the elements of \<open>xs\<close> in the order of their first
  occurrence.
\<close>

fun set_add_all :: "'a list \<Rightarrow> 'a list \<Rightarrow> 'a list" where
  "set_add_all acc [] = acc"
| "set_add_all acc (x # xs) = set_add_all (if x \<in> set acc then acc else acc @ [x]) xs"

definition array_from_set :: "'a list \<Rightarrow> 'a list" where
  "array_from_set xs = set_add_all [] xs"

definition select_by_id :: "SavedPaperRow list \<Rightarrow> string \<Rightarrow> SavedPaperRow list" where
  "select_by_id rows i = filter (\<lambda>r. arxiv_id r = i) rows"

definition update_tags :: "SavedPaperRow list \<Rightarrow> string \<Rightarrow> string list \<Rightarrow> SavedPaperRow list" where
  "update_tags rows i ts = map (\<lambda>r. if arxiv_id r = i then r\<lparr>row_tags := ts\<rparr> else r) rows"

text \<open>
  \<^verbatim>\<open>INSERT INTO saved_papers\<close>: the primary key \<^verbatim>\<open>arxiv_id\<close> is unique, so the
  statement throws when the key is taken.
\<close>

definition insert_row :: "SavedPaperRow list \<Rightarrow> SavedPaperRow \<Rightarrow> SavedPaperRow list option" where
  "insert_row rows row =
     (if select_by_id rows (arxiv_id row) \<noteq> [] then None else Some (rows @ [row]))"

definition delete_by_id :: "SavedPaperRow list \<Rightarrow> string \<Rightarrow> SavedPaperRow list" where
  "delete_by_id rows i = filter (\<lambda>r. arxiv_id r \<noteq> i) rows"

text \<open>The row of the \<^verbatim>\<open>VALUES\<close> clause of the insert.\<close>

definition inserted_row :: "string \<Rightarrow> ArxivPaper \<Rightarrow> string list \<Rightarrow> nat \<Rightarrow> SavedPaperRow" where
  "inserted_row canonicalId paper tags savedAt =
     \<lparr>arxiv_id = canonicalId, row_title = title paper,
      row_authors = authors paper, row_published = published paper,
      row_updated = (if truthy_field (updated paper) then the (updated paper) else published paper),
      row_abstract = abstract paper, row_url = url paper,
      row_tags = tags, saved_at = savedAt\<rparr>"

definition save_failure :: "string \<Rightarrow> string \<Rightarrow> string \<Rightarrow> SavePaperResult" where
  "save_failure i t msg =
     \<lparr>save_arxivId = i, save_title = t, save_tags = [], save_savedAt = 0,
      wasAlreadySaved = False, save_error = Some msg\<rparr>"

definition savePaper ::
  "env \<Rightarrow> agent \<Rightarrow> string \<Rightarrow> string list option \<Rightarrow> SavePaperResult \<times> agent" where
  "savePaper e a arxivId1 tags_arg =
     (let tags = (case tags_arg of None \<Rightarrow> [] | Some ts \<Rightarrow> ts);
          normalized = normalizeArxivId arxivId1;
          canonicalId = canonical normalized
      in if sql_throws e SelectExisting
         then (save_failure canonicalId [] ''Database error while checking for existing paper'', a)
         else
           (case select_by_id (saved_papers a) canonicalId of
              existing # _ \<Rightarrow>
                (let existingTags = row_tags existing;
                     mergedTags = array_from_set (existingTags @ tags)
                 in if sql_throws e UpdateTags
                    then (\<lparr>save_arxivId = canonicalId, save_title = row_title existing,
                           save_tags = existingTags, save_savedAt = saved_at existing,
                           wasAlreadySaved = True, save_error = Some ''Failed to update tags''\<rparr>, a)
                    else
                      (\<lparr>save_arxivId = canonicalId, save_title = row_title existing,
                        save_tags = mergedTags, save_savedAt = saved_at existing,
                        wasAlreadySaved = True, save_error = None\<rparr>,
                       updateLibraryPreview e
                         (a\<lparr>saved_papers := update_tags (saved_papers a) canonicalId mergedTags\<rparr>)))
            | [] \<Rightarrow>
                (case fetch_paper e a canonicalId of
                   (Inl ArxivNetworkError, a1) \<Rightarrow> (save_failure canonicalId [] connect_message, a1)
                 | (Inl (ArxivHttpError status statusText), a1) \<Rightarrow>
                     (save_failure canonicalId [] (http_message status), a1)
                 | (Inr None, a1) \<Rightarrow>
                     (save_failure canonicalId [] (not_found_message canonicalId), a1)
                 | (Inr (Some paper), a1) \<Rightarrow>
                     (let savedAt = now e;
                          row = inserted_row canonicalId paper tags savedAt
                      in case (if sql_throws e InsertPaper then None
                               else insert_row (saved_papers a1) row) of
                           None \<Rightarrow>
                             (save_failure canonicalId (title paper)
                                ''Failed to save paper to database'', a1)
                         | Some rows \<Rightarrow>
                             (\<lparr>save_arxivId = canonicalId, save_title = title paper,
                               save_tags = tags, save_savedAt = savedAt,
                               wasAlreadySaved = False, save_error = None\<rparr>,
                              updateLibraryPreview e (a1\<lparr>saved_papers := rows\<rparr>))))))"

subsection \<open>listSavedPapers\<close>

record ListedPaper =
  listed_arxivId :: string
  listed_title :: string
  listed_authors :: "xml_value list"
  listed_published :: xml_value
  listed_abstract :: string
  listed_url :: string
  listed_tags :: "string list"
  listed_savedAt :: nat

record ListSavedPapersResult =
  papers :: "ListedPaper list"
  filterText_of :: "string option"
  tagFilter :: "string option"
  totalCount :: nat
  wasTruncated :: bool
  list_error :: "string option"

definition listed_of :: "SavedPaperRow \<Rightarrow> ListedPaper" where
  "listed_of row =
     \<lparr>listed_arxivId = arxiv_id row, listed_title = row_title row,
      listed_authors = row_authors row, listed_published = row_published row,
      listed_abstract = row_abstract row, listed_url = row_url row,
      listed_tags = row_tags row, listed_savedAt = saved_at row\<rparr>"

text \<open>The two filters; an absent or empty tag or text filters nothing out.\<close>

definition tag_filter :: "string option \<Rightarrow> SavedPaperRow \<Rightarrow> bool" where
  "tag_filter tag row \<longleftrightarrow>
     (if truthy tag
      then list_ex (\<lambda>t. toLowerCase t = toLowerCase (the tag)) (row_tags row)
      else True)"

definition text_filter :: "string option \<Rightarrow> SavedPaperRow \<Rightarrow> bool" where
  "text_filter filterText row \<longleftrightarrow>
     (if truthy filterText
      then (let lowerFilter = toLowerCase (the filterText)
            in str_includes (toLowerCase (row_title row)) lowerFilter
               \<or> str_includes (toLowerCase (row_abstract row)) lowerFilter)
      else True)"

definition listSavedPapers ::
  "env \<Rightarrow> agent \<Rightarrow> string option \<Rightarrow> string option \<Rightarrow> nat option \<Rightarrow> ListSavedPapersResult" where
  "listSavedPapers e a filterText tag limit_arg =
     (let limit = (case limit_arg of None \<Rightarrow> 20 | Some n \<Rightarrow> n);
          effectiveLimit = min limit 100
      in if sql_throws e SelectAll
         then \<lparr>papers = [], filterText_of = None, tagFilter = None, totalCount = 0,
               wasTruncated = False,
               list_error = Some ''Failed to retrieve saved papers from database''\<rparr>
         else
           (let allPapers = order_desc e (saved_papers a);
                filtered = filter (text_filter filterText) (filter (tag_filter tag) allPapers);
                totalCount1 = length filtered;
                wasTruncated1 = (totalCount1 > effectiveLimit);
                limited = take effectiveLimit filtered
            in \<lparr>papers = map listed_of limited, filterText_of = filterText, tagFilter = tag,
                 totalCount = totalCount1, wasTruncated = wasTruncated1, list_error = None\<rparr>))"

subsection \<open>removeSavedPaper\<close>

record RemoveSavedPaperResult =
  remove_arxivId :: string
  remove_title :: "string option"
  success :: bool
  remove_error :: "string option"

definition not_in_library_message :: "string \<Rightarrow> string" where
  "not_in_library_message i = ''Paper with arXiv ID '' @ quoted i @ '' not found in library''"

text \<open>
  The execution of the confirmation-gated tool: it runs only once the user has approved
  the pending call.
\<close>

definition removeSavedPaper :: "env \<Rightarrow> agent \<Rightarrow> string \<Rightarrow> RemoveSavedPaperResult \<times> agent" where
  "removeSavedPaper e a arxivId1 =
     (let normalized = normalizeArxivId arxivId1;
          canonicalId = canonical normalized;
          title1 = (if sql_throws e SelectTitle then None
                    else (case select_by_id (saved_papers a) canonicalId of
                            [] \<Rightarrow> None
                          | r # _ \<Rightarrow> Some (row_title r)))
      in if \<not> truthy title1
         then (\<lparr>remove_arxivId = canonicalId, remove_title = None, success = False,
                remove_error = Some (not_in_library_message canonicalId)\<rparr>, a)
         else if sql_throws e DeletePaper
         then (\<lparr>remove_arxivId = canonicalId, remove_title = title1, success = False,
                remove_error = Some ''Failed to remove paper from database''\<rparr>, a)
         else (\<lparr>remove_arxivId = canonicalId, remove_title = title1, success = True,
                remove_error = None\<rparr>,
               updateLibraryPreview e
                 (a\<lparr>saved_papers := delete_by_id (saved_papers a) canonicalId\<rparr>)))"

section \<open>Valid raw identifiers\<close>

text \<open>
  The raw identifiers the normalizer is specified for: a new-style base
  \<^verbatim>\<open>YYMM.NNNNN\<close> (two non-empty runs of digits around a dot) or an old-style base
  \<^verbatim>\<open>subject[-subject2]/YYMMNNN\<close> (letters, hyphens and dots, a slash, digits),
  optionally followed by \<^verbatim>\<open>vK\<close>, given bare or inside an abstract-page or PDF-page
  URL with an optional \<^verbatim>\<open>.pdf\<close> at the end.
\<close>

datatype id_base = NewStyle string string | OldStyle string string

datatype endpoint = Abs | Pdf

datatype id_form = Bare | Url string endpoint bool

definition is_subject_char :: "char \<Rightarrow> bool" where
  "is_subject_char c \<longleftrightarrow>
     c \<in> set ''abcdefghijklmnopqrstuvwxyzABCDEFGHIJKLMNOPQRSTUVWXYZ-.''"

definition digits :: "string \<Rightarrow> bool" where
  "digits s \<longleftrightarrow> s \<noteq> [] \<and> list_all is_digit s"

fun valid_base :: "id_base \<Rightarrow> bool" where
  "valid_base (NewStyle yymm num) \<longleftrightarrow> digits yymm \<and> digits num"
| "valid_base (OldStyle subject num) \<longleftrightarrow>
     subject \<noteq> [] \<and> list_all is_subject_char subject \<and> digits num"

fun base_string :: "id_base \<Rightarrow> string" where
  "base_string (NewStyle yymm num) = yymm @ ''.'' @ num"
| "base_string (OldStyle subject num) = subject @ ''/'' @ num"

definition url_prefixes :: "string list" where
  "url_prefixes =
     ['''', ''http://'', ''https://'', ''http://www.'', ''https://www.'',
      ''http://export.'', ''https://export.'']"

fun valid_form :: "id_form \<Rightarrow> bool" where
  "valid_form Bare \<longleftrightarrow> True"
| "valid_form (Url pre ep dotpdf) \<longleftrightarrow> pre \<in> set url_prefixes"

definition valid_raw :: "id_form \<Rightarrow> id_base \<Rightarrow> string option \<Rightarrow> bool" where
  "valid_raw form base ver \<longleftrightarrow>
     valid_form form \<and> valid_base base \<and> (case ver of None \<Rightarrow> True | Some k \<Rightarrow> digits k)"

definition versioned_string :: "id_base \<Rightarrow> string option \<Rightarrow> string" where
  "versioned_string base ver =
     base_string base @ (case ver of None \<Rightarrow> [] | Some k \<Rightarrow> CHR ''v'' # k)"

fun raw_string :: "id_form \<Rightarrow> id_base \<Rightarrow> string option \<Rightarrow> string" where
  "raw_string Bare base ver = versioned_string base ver"
| "raw_string (Url pre ep dotpdf) base ver =
     pre @ (case ep of Abs \<Rightarrow> ''arxiv.org/abs/'' | Pdf \<Rightarrow> ''arxiv.org/pdf/'')
       @ versioned_string base ver @ (if dotpdf then ''.pdf'' else [])"

text \<open>A string that ends with a version suffix: \<^verbatim>\<open>v\<close> and one or more digits.\<close>

definition has_version_suffix :: "string \<Rightarrow> bool" where
  "has_version_suffix s \<longleftrightarrow>
     takeWhile is_digit (rev s) \<noteq> []
     \<and> (case dropWhile is_digit (rev s) of [] \<Rightarrow> False | c # _ \<Rightarrow> c = CHR ''v'')"

section \<open>Rows matching the list filters, in the words of the specification\<close>

text \<open>
  The tag filter is case-insensitive exact membership: the lower-cased tag is one of the
  lower-cased tags of the row. The text filter is a case-insensitive substring match over
  the title and the abstract: the lower-cased text occurs at some position of the
  lower-cased title or abstract. A filter is supplied when it is a non-empty string; an
  absent or empty filter selects every row.
\<close>

definition occurs_at :: "nat \<Rightarrow> string \<Rightarrow> string \<Rightarrow> bool" where
  "occurs_at i t s \<longleftrightarrow> i + length t \<le> length s \<and> take (length t) (drop i s) = t"

definition is_substring :: "string \<Rightarrow> string \<Rightarrow> bool" where
  "is_substring t s \<longleftrightarrow> list_ex (\<lambda>i. occurs_at i t s) [0..<Suc (length s)]"

definition supplied :: "string option \<Rightarrow> bool" where
  "supplied f \<longleftrightarrow> f \<noteq> None \<and> f \<noteq> Some []"

definition spec_tag_matches :: "string option \<Rightarrow> SavedPaperRow \<Rightarrow> bool" where
  "spec_tag_matches tag row \<longleftrightarrow>
     (supplied tag \<longrightarrow> toLowerCase (the tag) \<in> set (map toLowerCase (row_tags row)))"

definition spec_text_matches :: "string option \<Rightarrow> SavedPaperRow \<Rightarrow> bool" where
  "spec_text_matches filterText row \<longleftrightarrow>
     (supplied filterText \<longrightarrow>
        is_substring (toLowerCase (the filterText)) (toLowerCase (row_title row))
        \<or> is_substring (toLowerCase (the filterText)) (toLowerCase (row_abstract row)))"

definition spec_matches :: "string option \<Rightarrow> string option \<Rightarrow> SavedPaperRow \<Rightarrow> bool" where
  "spec_matches filterText tag row \<longleftrightarrow>
     spec_tag_matches tag row \<and> spec_text_matches filterText row"

text \<open>The matching rows, in the order in which the storage engine returns the table.\<close>

definition matching_in_order ::
  "env \<Rightarrow> string option \<Rightarrow> string option \<Rightarrow> SavedPaperRow list \<Rightarrow> SavedPaperRow list" where
  "matching_in_order e filterText tag rows = filter (spec_matches filterText tag) (order_desc e rows)"

section \<open>Link resolution as the loop computes it\<close>

text \<open>
  The loop over the links overwrites its result at every matching link, so the last
  matching link decides: the last alternate HTML link that carries an href, and the
  last PDF link, with or without an href.
\<close>

definition links_of :: "AtomEntry \<Rightarrow> AtomLink list" where
  "links_of e = (case entry_link e of None \<Rightarrow> [] | Some ls \<Rightarrow> ls)"

definition last_alternate_href :: "AtomLink list \<Rightarrow> string option" where
  "last_alternate_href ls =
     (case rev (filter (\<lambda>l. is_alternate_html l \<and> href l \<noteq> None) ls) of
        [] \<Rightarrow> None
      | l # _ \<Rightarrow> href l)"

definition last_pdf_href :: "AtomLink list \<Rightarrow> string option" where
  "last_pdf_href ls = (case rev (filter is_pdf_link ls) of [] \<Rightarrow> None | l # _ \<Rightarrow> href l)"

section \<open>Example inputs\<close>

definition no_options :: ArxivSearchOptions where
  "no_options =
     \<lparr>maxResults = None, start = None, sortBy = None, sortOrder = None, categories = None\<rparr>"

definition pdf_link :: "string \<Rightarrow> AtomLink" where
  "pdf_link h = \<lparr>href = Some h, rel = Some ''related'', link_type = Some ''application/pdf''\<rparr>"

definition html_link :: "string \<Rightarrow> AtomLink" where
  "html_link h = \<lparr>href = Some h, rel = Some ''alternate'', link_type = Some ''text/html''\<rparr>"

definition example_entry :: "string \<Rightarrow> string \<Rightarrow> AtomLink list \<Rightarrow> AtomEntry" where
  "example_entry i t ls =
     \<lparr>entry_id = Some (Str i), entry_title = Some (Str t),
      entry_published = Some (Str ''2023-01-15T00:00:00Z''), entry_updated = None,
      entry_summary = Some (Str ''An abstract.''),
      entry_author = Some [\<lparr>author_name = Some (Str ''Alice Smith'')\<rparr>],
      entry_link = Some ls, entry_category = None\<rparr>"


definition two_pdf_entry :: AtomEntry where
  "two_pdf_entry =
     example_entry ''http://arxiv.org/abs/2301.01234v2'' ''A Great Paper''
       [html_link ''http://arxiv.org/abs/2301.01234v2'',
        pdf_link ''http://arxiv.org/pdf/2301.01234v1'',
        pdf_link ''http://arxiv.org/pdf/2301.01234v2'']"

definition feed_of :: "AtomEntry list \<Rightarrow> xml_parser" where
  "feed_of es = (\<lambda>xml. Inr \<lparr>feed = Some \<lparr>feed_entry = Some es\<rparr>\<rparr>)"

definition example_env :: "AtomEntry list \<Rightarrow> env" where
  "example_env es =
     \<lparr>fetchImpl = (\<lambda>u. Response True 200 ''OK'' ''<feed/>''),
      xml_parse = feed_of es,
      now = 1700000000000,
      generateText = (\<lambda>paper. Some (''Summary of '' @ title paper)),
      sql_throws = (\<lambda>statement. False),
      order_desc = backward_index_scan\<rparr>"

definition library_of :: "SavedPaperRow list \<Rightarrow> agent" where
  "library_of rows =
     \<lparr>saved_papers = rows, paper_summaries = Map.empty, libraryPreview = [], requested = []\<rparr>"

definition example_row :: "string \<Rightarrow> string \<Rightarrow> nat \<Rightarrow> SavedPaperRow" where
  "example_row i t n =
     \<lparr>arxiv_id = i, row_title = t, row_authors = [Str ''Alice Smith''],
      row_published = Str ''2023-01-15T00:00:00Z'', row_updated = Str ''2023-01-15T00:00:00Z'',
      row_abstract = ''An abstract.'', row_url = ''http://arxiv.org/abs/'' @ i,
      row_tags = [], saved_at = n\<rparr>"

definition blank_title_entry :: AtomEntry where
  "blank_title_entry = example_entry ''http://arxiv.org/abs/2301.01234v2'' '' '' []"


definition tagged_row :: "string \<Rightarrow> string \<Rightarrow> string list \<Rightarrow> nat \<Rightarrow> SavedPaperRow" where
  "tagged_row i t tags n = (example_row i t n)\<lparr>row_tags := tags\<rparr>"

text \<open>The paper of an entry that the parser keeps.\<close>

definition paper_of :: "AtomEntry \<Rightarrow> ArxivPaper" where
  "paper_of e = the (case parseEntry e of Inr r \<Rightarrow> r | Inl t \<Rightarrow> None)"

section \<open>Properties of the regular-expression helpers\<close>

lemma not_digit_v [simp]: "\<not> is_digit CHR ''v''"
  by (simp add: is_digit_def)

lemma lazy_dot_plus_sound:
  "lazy_dot_plus tail acc s = Some (g, t) \<Longrightarrow> \<exists>p. g = acc @ p \<and> s = p @ t \<and> tail t"
proof (induction s arbitrary: acc)
  case Nil
  then show ?case by (auto split: if_splits)
next
  case (Cons c s)
  show ?case
  proof (cases "tail (c # s)")
    case True
    with Cons.prems show ?thesis by auto
  next
    case False
    with Cons.prems have "lazy_dot_plus tail (acc @ [c]) s = Some (g, t)"
      by (auto split: if_splits)
    from Cons.IH[OF this] obtain p where "g = (acc @ [c]) @ p" "s = p @ t" "tail t"
      by blast
    then have "g = acc @ (c # p) \<and> c # s = (c # p) @ t \<and> tail t" by simp
    then show ?thesis by blast
  qed
qed

lemma dot_plus_lazy_sound:
  assumes "dot_plus_lazy tail s = Some (g, t)"
  shows "g @ t = s \<and> tail t \<and> g \<noteq> []"
proof (cases s)
  case Nil
  with assms show ?thesis by (simp add: dot_plus_lazy_def)
next
  case (Cons c cs)
  with assms have "lazy_dot_plus tail [c] cs = Some (g, t)"
    by (auto simp: dot_plus_lazy_def split: if_splits)
  from lazy_dot_plus_sound[OF this] Cons show ?thesis by auto
qed

lemma lazy_dot_plus_first:
  assumes "tail t"
    and "\<And>q r. p = q @ r \<Longrightarrow> r \<noteq> [] \<Longrightarrow> \<not> tail (r @ t)"
    and "\<And>c. c \<in> set p \<Longrightarrow> \<not> is_line_terminator c"
  shows "lazy_dot_plus tail acc (p @ t) = Some (acc @ p, t)"
  using assms
proof (induction p arbitrary: acc)
  case Nil
  then show ?case by (cases t) auto
next
  case (Cons c p)
  have nt: "\<not> tail ((c # p) @ t)"
    using Cons.prems(2)[of "[]" "c # p"] by simp
  have step: "lazy_dot_plus tail (acc @ [c]) (p @ t) = Some ((acc @ [c]) @ p, t)"
  proof (rule Cons.IH)
    show "tail t" by (rule Cons.prems(1))
    show "\<not> tail (r @ t)" if "p = q @ r" "r \<noteq> []" for q r
      using Cons.prems(2)[of "c # q" r] that by simp
    show "\<not> is_line_terminator d" if "d \<in> set p" for d
      using Cons.prems(3)[of d] that by simp
  qed
  from nt Cons.prems(3)[of c] step show ?case by simp
qed

lemma dot_plus_lazy_first:
  assumes "tail t" and "s \<noteq> []"
    and "\<And>q r. s = q @ r \<Longrightarrow> q \<noteq> [] \<Longrightarrow> r \<noteq> [] \<Longrightarrow> \<not> tail (r @ t)"
    and "\<And>c. c \<in> set s \<Longrightarrow> \<not> is_line_terminator c"
  shows "dot_plus_lazy tail (s @ t) = Some (s, t)"
proof -
  from assms(2) obtain c p where s: "s = c # p" by (cases s) auto
  have "lazy_dot_plus tail [c] (p @ t) = Some ([c] @ p, t)"
  proof (rule lazy_dot_plus_first)
    show "tail t" by (rule assms(1))
    show "\<not> tail (r @ t)" if "p = q @ r" "r \<noteq> []" for q r
      using assms(3)[of "c # q" r] that s by simp
    show "\<not> is_line_terminator d" if "d \<in> set p" for d
      using assms(4)[of d] that s by simp
  qed
  with assms(4)[of c] s show ?thesis by (simp add: dot_plus_lazy_def)
qed

section \<open>Properties of valid identifiers\<close>

lemma digit_not_terminator: "is_digit c \<Longrightarrow> \<not> is_line_terminator c"
  unfolding is_digit_def is_line_terminator_def by auto

lemma subject_not_terminator: "is_subject_char c \<Longrightarrow> \<not> is_line_terminator c"
  unfolding is_subject_char_def is_line_terminator_def by auto

lemma subject_not_slash: "is_subject_char c \<Longrightarrow> c \<noteq> CHR ''/''"
  unfolding is_subject_char_def by auto

lemma not_digit_dot_slash: "\<not> is_digit CHR ''.''" "\<not> is_digit CHR ''/''"
  unfolding is_digit_def by simp_all

lemma digit_tail_unique:
  assumes eq: "xs @ a # ds = ys @ b # es"
    and nd: "\<not> is_digit a" "\<not> is_digit b"
    and dd: "list_all is_digit ds" "list_all is_digit es"
  shows "a = b \<and> xs = ys \<and> ds = es"
proof -
  from eq have "rev (xs @ a # ds) = rev (ys @ b # es)" by simp
  then have r: "rev ds @ a # rev xs = rev es @ b # rev ys" by simp
  have "takeWhile is_digit (rev ds @ a # rev xs) = rev ds"
    using nd dd by (simp add: takeWhile_tail list_all_iff)
  moreover have "takeWhile is_digit (rev es @ b # rev ys) = rev es"
    using nd dd by (simp add: takeWhile_tail list_all_iff)
  ultimately have "rev ds = rev es" using r by simp
  then have "ds = es" by simp
  with eq show ?thesis by simp
qed

lemma ascii_lower_id:
  assumes "c \<notin> set ''ABCDEFGHIJKLMNOPQRSTUVWXYZ''"
  shows "ascii_lower c = c"
proof -
  have "map_of (zip ''ABCDEFGHIJKLMNOPQRSTUVWXYZ'' ''abcdefghijklmnopqrstuvwxyz'') c = None"
    using assms by (subst map_of_zip_is_None) simp_all
  then show ?thesis by (simp only: ascii_lower_def option.case)
qed

lemma digit_not_upper: "is_digit c \<Longrightarrow> c \<notin> set ''ABCDEFGHIJKLMNOPQRSTUVWXYZ''"
  unfolding is_digit_def by auto

lemma ascii_lower_digit: "is_digit c \<Longrightarrow> ascii_lower c = c"
  by (rule ascii_lower_id) (rule digit_not_upper)

lemma marker_abs: "map ascii_lower ''arxiv.org/abs/'' = ''arxiv.org/abs/''"
  by (simp add: ascii_lower_def)

lemma marker_pdf: "map ascii_lower ''arxiv.org/pdf/'' = ''arxiv.org/pdf/''"
  by (simp add: ascii_lower_def)

lemma dot_pdf: "map ascii_lower ''.pdf'' = ''.pdf''"
  by (simp add: ascii_lower_def)

lemma base_split:
  assumes "valid_base base"
  shows "\<exists>pre c num. base_string base = pre @ c # num \<and> list_all is_digit num \<and> num \<noteq> []
           \<and> \<not> is_digit c \<and> c \<noteq> CHR ''v''"
proof (cases base)
  case (NewStyle yymm num)
  have "base_string base = yymm @ CHR ''.'' # num" using NewStyle by simp
  moreover have "list_all is_digit num \<and> num \<noteq> []"
    using assms NewStyle by (simp add: digits_def)
  ultimately show ?thesis using not_digit_dot_slash(1) by blast
next
  case (OldStyle subject num)
  have "base_string base = subject @ CHR ''/'' # num" using OldStyle by simp
  moreover have "list_all is_digit num \<and> num \<noteq> []"
    using assms OldStyle by (simp add: digits_def)
  ultimately show ?thesis using not_digit_dot_slash(2) by blast
qed

lemma base_no_terminator:
  assumes "valid_base base" "c \<in> set (base_string base)"
  shows "\<not> is_line_terminator c"
proof (cases base)
  case (NewStyle yymm num)
  with assms have "is_digit c \<or> c = CHR ''.''"
    by (auto simp: digits_def list_all_iff)
  then show ?thesis
    using digit_not_terminator[of c] by (auto simp: is_line_terminator_def)
next
  case (OldStyle subject num)
  with assms have "is_digit c \<or> is_subject_char c \<or> c = CHR ''/''"
    by (auto simp: digits_def list_all_iff)
  then show ?thesis
    using digit_not_terminator[of c] subject_not_terminator[of c]
    by (auto simp: is_line_terminator_def)
qed

lemma base_nonempty: "valid_base base \<Longrightarrow> base_string base \<noteq> []"
  by (cases base) auto

lemma base_suffix_no_version:
  assumes "valid_base base" "base_string base = q @ r" "r \<noteq> []"
  shows "\<not> version_tail r"
proof
  assume vt: "version_tail r"
  with assms(3) obtain ds where r: "r = CHR ''v'' # ds" "ds \<noteq> []" "list_all is_digit ds"
    by (cases r) (auto simp: version_tail_def)
  from base_split[OF assms(1)] obtain pre c num where
    s: "base_string base = pre @ c # num" "list_all is_digit num" "\<not> is_digit c" "c \<noteq> CHR ''v''"
    by blast
  from assms(2) r s have "q @ CHR ''v'' # ds = pre @ c # num" by simp
  from digit_tail_unique[OF this not_digit_v s(3) r(3) s(2)] s(4) show False by simp
qed

lemma no_version_before_v:
  assumes "r \<noteq> []"
  shows "\<not> version_tail (r @ CHR ''v'' # k)"
proof -
  from assms obtain x r' where "r = x # r'" by (cases r) auto
  then show ?thesis by (simp add: version_tail_def)
qed

lemma version_match_base:
  assumes "valid_base base"
  shows "dot_plus_lazy version_tail (base_string base) = Some (base_string base, [])"
proof -
  have "dot_plus_lazy version_tail (base_string base @ []) = Some (base_string base, [])"
  proof (rule dot_plus_lazy_first)
    show "version_tail []" by (simp add: version_tail_def)
    show "base_string base \<noteq> []" by (rule base_nonempty[OF assms])
    show "\<not> version_tail (r @ [])" if "base_string base = q @ r" "r \<noteq> []" for q r
      using base_suffix_no_version[OF assms that] by simp
    show "\<not> is_line_terminator c" if "c \<in> set (base_string base)" for c
      by (rule base_no_terminator[OF assms that])
  qed
  then show ?thesis by simp
qed

lemma version_match_versioned:
  assumes "valid_base base" "digits k"
  shows "dot_plus_lazy version_tail (base_string base @ CHR ''v'' # k)
           = Some (base_string base, CHR ''v'' # k)"
proof (rule dot_plus_lazy_first)
  show "version_tail (CHR ''v'' # k)" using assms(2) by (simp add: version_tail_def digits_def)
  show "base_string base \<noteq> []" by (rule base_nonempty[OF assms(1)])
  show "\<not> version_tail (r @ CHR ''v'' # k)" if "r \<noteq> []" for r
    by (rule no_version_before_v[OF that])
  show "\<not> is_line_terminator c" if "c \<in> set (base_string base)" for c
    by (rule base_no_terminator[OF assms(1) that])
qed

lemma digits_no_slash: "digits s \<Longrightarrow> filter (\<lambda>d. d = CHR ''/'') s = []"
proof -
  assume "digits s"
  then have "\<forall>x\<in>set s. is_digit x" by (simp add: digits_def list_all_iff)
  then have "\<forall>x\<in>set s. \<not> x = CHR ''/''" using not_digit_dot_slash(2) by blast
  then show ?thesis by (simp only: filter_False)
qed

lemma subject_no_slash: "list_all is_subject_char s \<Longrightarrow> filter (\<lambda>d. d = CHR ''/'') s = []"
proof -
  assume "list_all is_subject_char s"
  then have "\<forall>x\<in>set s. is_subject_char x" by (simp add: list_all_iff)
  then have "\<forall>x\<in>set s. \<not> x = CHR ''/''" using subject_not_slash by blast
  then show ?thesis by (simp only: filter_False)
qed

lemma base_slashes:
  assumes "valid_base base"
  shows "length (filter (\<lambda>d. d = CHR ''/'') (base_string base)) \<le> 1"
proof (cases base)
  case (NewStyle yymm num)
  with assms show ?thesis by (simp add: digits_no_slash)
next
  case (OldStyle subject num)
  with assms show ?thesis by (simp add: digits_no_slash subject_no_slash)
qed

lemma marker_first_char:
  assumes "marker_at (c # cs)"
  shows "ascii_lower c = CHR ''a''"
proof -
  have "hd (map ascii_lower (take 14 (c # cs))) = ascii_lower c" by simp
  moreover from assms have "hd (map ascii_lower (take 14 (c # cs))) = CHR ''a''"
    unfolding marker_at_def Let_def by (elim disjE) (simp_all only: list.sel)
  ultimately show ?thesis by simp
qed

lemma url_match_skip:
  assumes "ascii_lower c \<noteq> CHR ''a''"
  shows "url_match (c # cs) = url_match cs"
proof -
  have "\<not> marker_at (c # cs)" using marker_first_char[of c cs] assms by blast
  then show ?thesis by simp
qed

lemma url_match_skip_prefix:
  "\<forall>c\<in>set pre. ascii_lower c \<noteq> CHR ''a'' \<Longrightarrow> url_match (pre @ s) = url_match s"
proof (induction pre)
  case Nil
  show ?case by simp
next
  case (Cons c pre)
  then have "url_match ((c # pre) @ s) = url_match (pre @ s)"
    using url_match_skip[of c "pre @ s"] by simp
  with Cons show ?case by simp
qed

lemma prefix_char_lower:
  assumes "c \<in> set ''htps:/w.exor''"
  shows "ascii_lower c \<noteq> CHR ''a''"
proof -
  from assms have "c \<notin> set ''ABCDEFGHIJKLMNOPQRSTUVWXYZ''" by auto
  then have "ascii_lower c = c" by (rule ascii_lower_id)
  with assms show ?thesis by auto
qed

lemma url_prefix_chars: "pre \<in> set url_prefixes \<Longrightarrow> set pre \<subseteq> set ''htps:/w.exor''"
  unfolding url_prefixes_def by auto

lemma url_prefix_no_a:
  "pre \<in> set url_prefixes \<Longrightarrow> \<forall>c\<in>set pre. ascii_lower c \<noteq> CHR ''a''"
  using url_prefix_chars[of pre] prefix_char_lower by blast

lemma marker_at_literal:
  assumes "m = ''arxiv.org/abs/'' \<or> m = ''arxiv.org/pdf/''"
  shows "marker_at (m @ rest)"
proof -
  from assms have "length m = 14" by auto
  then have "take 14 (m @ rest) = m" by simp
  moreover from assms have "map ascii_lower m = m" using marker_abs marker_pdf by auto
  ultimately show ?thesis using assms by (simp add: marker_at_def)
qed

lemma url_match_at_marker:
  assumes "dot_plus_lazy pdf_tail rest = Some (g, t)"
    and m: "m = ''arxiv.org/abs/'' \<or> m = ''arxiv.org/pdf/''"
  shows "url_match (m @ rest) = Some g"
proof -
  from m have len: "length m = 14" by auto
  then obtain c cs where cs: "m @ rest = c # cs" by (cases m) auto
  have "marker_at (c # cs)" using marker_at_literal[OF m, of rest] cs by simp
  moreover have "drop 14 (c # cs) = rest" using cs[symmetric] len by simp
  ultimately have "url_match (c # cs) = Some g" using assms(1) by simp
  with cs show ?thesis by simp
qed

lemma not_digit_f: "\<not> is_digit CHR ''f''"
  unfolding is_digit_def by simp

lemma no_pdf_tail_digit:
  assumes "r \<noteq> []" "is_digit (last r)"
  shows "\<not> pdf_tail r"
proof
  assume "pdf_tail r"
  with assms(1) have m: "map ascii_lower r = ''.pdf''" by (simp add: pdf_tail_def)
  have "last (map ascii_lower r) = ascii_lower (last r)" using assms(1) by (simp add: last_map)
  with m have "ascii_lower (last r) = CHR ''f''" by simp
  with ascii_lower_digit[OF assms(2)] have "last r = CHR ''f''" by simp
  with assms(2) not_digit_f show False by simp
qed

lemma no_pdf_tail_long:
  assumes "r \<noteq> []"
  shows "\<not> pdf_tail (r @ ''.pdf'')"
proof
  assume "pdf_tail (r @ ''.pdf'')"
  then have "map ascii_lower (r @ ''.pdf'') = ''.pdf''" by (simp add: pdf_tail_def)
  then have "length (map ascii_lower (r @ ''.pdf'')) = length ''.pdf''" by (rule arg_cong)
  then have "length r = 0" by simp
  with assms show False by simp
qed

lemma versioned_nonempty:
  "valid_base base \<Longrightarrow> versioned_string base ver \<noteq> []"
  using base_nonempty[of base] by (simp add: versioned_string_def)

lemma versioned_last_digit:
  assumes "valid_base base" "case ver of None \<Rightarrow> True | Some k \<Rightarrow> digits k"
  shows "is_digit (last (versioned_string base ver))"
proof (cases ver)
  case None
  from base_split[OF assms(1)] obtain pre c num where
    s: "base_string base = pre @ c # num" "list_all is_digit num" "num \<noteq> []"
    by blast
  then have "last (base_string base) = last num" by simp
  moreover have "is_digit (last num)" using s(2,3) by (simp add: list_all_iff)
  ultimately show ?thesis using None by (simp add: versioned_string_def)
next
  case (Some k)
  with assms(2) have k: "k \<noteq> []" "list_all is_digit k" by (simp_all add: digits_def)
  then have "is_digit (last k)" by (simp add: list_all_iff)
  with Some k show ?thesis by (simp add: versioned_string_def)
qed

lemma versioned_no_terminator:
  assumes "valid_base base" "case ver of None \<Rightarrow> True | Some k \<Rightarrow> digits k"
    and "c \<in> set (versioned_string base ver)"
  shows "\<not> is_line_terminator c"
proof (cases ver)
  case None
  with assms(3) have "c \<in> set (base_string base)" by (simp add: versioned_string_def)
  then show ?thesis by (rule base_no_terminator[OF assms(1)])
next
  case (Some k)
  with assms(3) have "c \<in> set (base_string base) \<or> c = CHR ''v'' \<or> c \<in> set k"
    by (auto simp: versioned_string_def)
  moreover have "\<forall>d\<in>set k. is_digit d" using assms(2) Some by (simp add: digits_def list_all_iff)
  moreover have "\<not> is_line_terminator CHR ''v''" by (simp add: is_line_terminator_def)
  ultimately show ?thesis
    using base_no_terminator[OF assms(1), of c] digit_not_terminator[of c] by blast
qed

lemma pdf_match_plain:
  assumes "valid_base base" "case ver of None \<Rightarrow> True | Some k \<Rightarrow> digits k"
  shows "dot_plus_lazy pdf_tail (versioned_string base ver) = Some (versioned_string base ver, [])"
proof -
  let ?s = "versioned_string base ver"
  have "dot_plus_lazy pdf_tail (?s @ []) = Some (?s, [])"
  proof (rule dot_plus_lazy_first)
    show "pdf_tail []" by (simp add: pdf_tail_def)
    show "?s \<noteq> []" by (rule versioned_nonempty[OF assms(1)])
    show "\<not> pdf_tail (r @ [])" if "?s = q @ r" "r \<noteq> []" for q r
    proof -
      from that have "last r = last ?s" by simp
      then have "is_digit (last r)" using versioned_last_digit[OF assms] by simp
      from no_pdf_tail_digit[OF that(2) this] show ?thesis by simp
    qed
    show "\<not> is_line_terminator c" if "c \<in> set ?s" for c
      by (rule versioned_no_terminator[OF assms that])
  qed
  then show ?thesis by simp
qed

lemma pdf_match_dotpdf:
  assumes "valid_base base" "case ver of None \<Rightarrow> True | Some k \<Rightarrow> digits k"
  shows "dot_plus_lazy pdf_tail (versioned_string base ver @ ''.pdf'')
           = Some (versioned_string base ver, ''.pdf'')"
proof (rule dot_plus_lazy_first)
  show "pdf_tail ''.pdf''" unfolding pdf_tail_def using dot_pdf by (rule disjI1)
  show "versioned_string base ver \<noteq> []" by (rule versioned_nonempty[OF assms(1)])
  show "\<not> pdf_tail (r @ ''.pdf'')" if "r \<noteq> []" for r
    by (rule no_pdf_tail_long[OF that])
  show "\<not> is_line_terminator c" if "c \<in> set (versioned_string base ver)" for c
    by (rule versioned_no_terminator[OF assms that])
qed

lemma ascii_lower_upper:
  assumes "c \<in> set ''ABCDEFGHIJKLMNOPQRSTUVWXYZ''"
  shows "ascii_lower c \<in> set ''abcdefghijklmnopqrstuvwxyz''"
proof -
  let ?U = "''ABCDEFGHIJKLMNOPQRSTUVWXYZ''" and ?L = "''abcdefghijklmnopqrstuvwxyz''"
  have "length ?U = length ?L" by simp
  from map_of_zip_is_Some[OF this, of c] assms
  obtain y where y: "map_of (zip ?U ?L) c = Some y" by blast
  then have "(c, y) \<in> set (zip ?U ?L)" by (rule map_of_SomeD)
  then have "y \<in> set ?L" by (rule set_zip_rightD)
  moreover have "ascii_lower c = y" using y by (simp only: ascii_lower_def option.case)
  ultimately show ?thesis by simp
qed

lemma ascii_lower_slash_iff: "ascii_lower c = CHR ''/'' \<longleftrightarrow> c = CHR ''/''"
proof (cases "c \<in> set ''ABCDEFGHIJKLMNOPQRSTUVWXYZ''")
  case True
  from ascii_lower_upper[OF this] have "ascii_lower c \<noteq> CHR ''/''" by auto
  moreover from True have "c \<noteq> CHR ''/''" by auto
  ultimately show ?thesis by simp
next
  case False
  then show ?thesis using ascii_lower_id[of c] by simp
qed

lemma filter_slash_lower:
  "length (filter (\<lambda>d. d = CHR ''/'') (map ascii_lower xs)) = length (filter (\<lambda>d. d = CHR ''/'') xs)"
  by (induction xs) (simp_all add: ascii_lower_slash_iff)

lemma marker_slashes:
  assumes "marker_at s"
  shows "2 \<le> length (filter (\<lambda>d. d = CHR ''/'') s)"
proof -
  from assms have "length (filter (\<lambda>d. d = CHR ''/'') (map ascii_lower (take 14 s))) = 2"
    unfolding marker_at_def Let_def by (elim disjE) simp_all
  then have "length (filter (\<lambda>d. d = CHR ''/'') (take 14 s)) = 2"
    by (simp only: filter_slash_lower)
  moreover have "filter (\<lambda>d. d = CHR ''/'') s
      = filter (\<lambda>d. d = CHR ''/'') (take 14 s) @ filter (\<lambda>d. d = CHR ''/'') (drop 14 s)"
    by (simp only: filter_append[symmetric] append_take_drop_id)
  ultimately show ?thesis by simp
qed

lemma url_match_none:
  "length (filter (\<lambda>d. d = CHR ''/'') s) \<le> 1 \<Longrightarrow> url_match s = None"
proof (induction s)
  case Nil
  show ?case by simp
next
  case (Cons c cs)
  have "\<not> marker_at (c # cs)" using marker_slashes[of "c # cs"] Cons.prems by auto
  moreover have "length (filter (\<lambda>d. d = CHR ''/'') cs) \<le> 1"
    using Cons.prems by (simp split: if_splits)
  ultimately show ?case using Cons.IH by simp
qed

lemma normalize_version_fields:
  "(version (normalizeArxivId x) = None) = (versioned (normalizeArxivId x) = None)"
  by (simp add: normalizeArxivId_def Let_def split: option.splits list.splits prod.splits)

lemma normalize_strips_one_suffix:
  assumes "version (normalizeArxivId x) = Some n"
  shows "\<exists>k. digits k \<and> n = parseInt k
           \<and> versioned (normalizeArxivId x)
               = Some (canonical (normalizeArxivId x) @ CHR ''v'' # k)"
proof -
  define i where "i = (case url_match x of Some g \<Rightarrow> g | None \<Rightarrow> x)"
  from assms obtain canon v k where
    m: "dot_plus_lazy version_tail i = Some (canon, v # k)"
    by (auto simp: normalizeArxivId_def Let_def i_def split: option.splits list.splits prod.splits)
  from dot_plus_lazy_sound[OF m] have s: "canon @ v # k = i" "version_tail (v # k)" by simp_all
  then have "v = CHR ''v''" "digits k" by (simp_all add: version_tail_def digits_def)
  moreover have "normalizeArxivId x =
      \<lparr>canonical = canon, version = Some (parseInt k), versioned = Some i\<rparr>"
    using m by (simp add: normalizeArxivId_def Let_def i_def)
  ultimately show ?thesis using assms s(1) by auto
qed

lemma stacked_suffix_example:
  "normalizeArxivId ''2301.01234v1v2'' =
     \<lparr>canonical = ''2301.01234v1'', version = Some 2, versioned = Some ''2301.01234v1v2''\<rparr>"
  by code_simp

lemma stacked_suffix_remains:
  "has_version_suffix ''2301.01234v1''"
  by code_simp

lemma stacked_second_pass:
  "canonical (normalizeArxivId ''2301.01234v1'') = ''2301.01234''"
  by code_simp

lemma versioned_slashes:
  assumes "valid_base base" "case ver of None \<Rightarrow> True | Some k \<Rightarrow> digits k"
  shows "length (filter (\<lambda>d. d = CHR ''/'') (versioned_string base ver)) \<le> 1"
proof (cases ver)
  case None
  then show ?thesis using base_slashes[OF assms(1)] by (simp add: versioned_string_def)
next
  case (Some k)
  with assms(2) have "filter (\<lambda>d. d = CHR ''/'') k = []" by (simp add: digits_no_slash)
  with Some show ?thesis using base_slashes[OF assms(1)] by (simp add: versioned_string_def)
qed

lemma extract_id:
  assumes "valid_raw form base ver"
  shows "(case url_match (raw_string form base ver) of Some g \<Rightarrow> g
          | None \<Rightarrow> raw_string form base ver) = versioned_string base ver"
proof -
  from assms have vb: "valid_base base" and vv: "case ver of None \<Rightarrow> True | Some k \<Rightarrow> digits k"
    by (simp_all add: valid_raw_def)
  show ?thesis
  proof (cases form)
    case Bare
    have "url_match (versioned_string base ver) = None"
      by (rule url_match_none) (rule versioned_slashes[OF vb vv])
    with Bare show ?thesis by simp
  next
    case (Url pre ep dotpdf)
    with assms have pre: "pre \<in> set url_prefixes" by (simp add: valid_raw_def)
    define m where "m = (case ep of Abs \<Rightarrow> ''arxiv.org/abs/'' | Pdf \<Rightarrow> ''arxiv.org/pdf/'')"
    define sfx where "sfx = (if dotpdf then ''.pdf'' else [])"
    have m: "m = ''arxiv.org/abs/'' \<or> m = ''arxiv.org/pdf/''"
      unfolding m_def by (cases ep) simp_all
    have raw: "raw_string form base ver = pre @ (m @ (versioned_string base ver @ sfx))"
      using Url by (simp add: m_def sfx_def)
    have "dot_plus_lazy pdf_tail (versioned_string base ver @ sfx)
            = Some (versioned_string base ver, sfx)"
      using pdf_match_plain[OF vb vv] pdf_match_dotpdf[OF vb vv] by (simp add: sfx_def)
    from url_match_at_marker[OF this m]
    have "url_match (m @ (versioned_string base ver @ sfx)) = Some (versioned_string base ver)" .
    then have "url_match (raw_string form base ver) = Some (versioned_string base ver)"
      using url_match_skip_prefix[OF url_prefix_no_a[OF pre]] raw by simp
    then show ?thesis by simp
  qed
qed

lemma normalize_from_id:
  assumes "(case url_match x of Some g \<Rightarrow> g | None \<Rightarrow> x) = versioned_string base ver"
    and "valid_base base" "case ver of None \<Rightarrow> True | Some k \<Rightarrow> digits k"
  shows "normalizeArxivId x =
           \<lparr>canonical = base_string base, version = map_option parseInt ver,
            versioned = (case ver of None \<Rightarrow> None | Some k \<Rightarrow> Some (versioned_string base ver))\<rparr>"
proof (cases ver)
  case None
  then have "versioned_string base ver = base_string base" by (simp add: versioned_string_def)
  with assms(1) None show ?thesis
    by (simp add: normalizeArxivId_def version_match_base[OF assms(2)])
next
  case (Some k)
  then have vs: "versioned_string base ver = base_string base @ CHR ''v'' # k"
    by (simp add: versioned_string_def)
  from assms(3) Some have "digits k" by simp
  from version_match_versioned[OF assms(2) this] assms(1) Some vs show ?thesis
    by (simp add: normalizeArxivId_def)
qed

lemma normalize_valid:
  assumes "valid_raw form base ver"
  shows "normalizeArxivId (raw_string form base ver) =
           \<lparr>canonical = base_string base, version = map_option parseInt ver,
            versioned = (case ver of None \<Rightarrow> None | Some k \<Rightarrow> Some (versioned_string base ver))\<rparr>"
proof (rule normalize_from_id[OF extract_id[OF assms]])
  show "valid_base base" using assms by (simp add: valid_raw_def)
  show "case ver of None \<Rightarrow> True | Some k \<Rightarrow> digits k" using assms by (simp add: valid_raw_def)
qed

lemma normalize_base:
  assumes "valid_base base"
  shows "canonical (normalizeArxivId (base_string base)) = base_string base"
proof -
  have "valid_raw Bare base None" using assms by (simp add: valid_raw_def)
  from normalize_valid[OF this] show ?thesis by (simp add: versioned_string_def)
qed

lemma base_no_version_suffix:
  assumes "valid_base base"
  shows "\<not> has_version_suffix (base_string base)"
proof -
  from base_split[OF assms] obtain pre c num where
    s: "base_string base = pre @ c # num" "list_all is_digit num" "\<not> is_digit c" "c \<noteq> CHR ''v''"
    by blast
  have r: "rev (base_string base) = rev num @ c # rev pre" using s(1) by simp
  have "dropWhile is_digit (rev num @ c # rev pre) = dropWhile is_digit (c # rev pre)"
    by (rule dropWhile_append2) (use s(2) in \<open>simp add: list_all_iff\<close>)
  then have "dropWhile is_digit (rev num @ c # rev pre) = c # rev pre"
    using s(3) by simp
  with r s(4) show ?thesis by (simp add: has_version_suffix_def)
qed

section \<open>The identifier normalizer: idempotence and invariant\<close>

text \<open>
  C5. For every valid raw identifier (old-style or new-style base, with or without a
  version suffix, bare or inside an abstract-page or PDF-page URL), normalizing the
  canonical id again gives the same canonical id:
  \<open>normalize (normalize x).canonical).canonical = (normalize x).canonical\<close>.
\<close>

theorem normalize_idempotent:
  assumes "valid_raw form base ver"
  shows "canonical (normalizeArxivId (canonical (normalizeArxivId (raw_string form base ver))))
           = canonical (normalizeArxivId (raw_string form base ver))"
proof -
  have vb: "valid_base base" using assms by (simp add: valid_raw_def)
  have "canonical (normalizeArxivId (raw_string form base ver)) = base_string base"
    using normalize_valid[OF assms] by simp
  then show ?thesis using normalize_base[OF vb] by simp
qed

theorem normalize_idempotent_witness:
  "valid_raw (Url ''https://'' Pdf True) (NewStyle ''2301'' ''01234'') (Some ''2'')
   \<and> raw_string (Url ''https://'' Pdf True) (NewStyle ''2301'' ''01234'') (Some ''2'')
       = ''https://arxiv.org/pdf/2301.01234v2.pdf''
   \<and> canonical (normalizeArxivId (canonical (normalizeArxivId
         ''https://arxiv.org/pdf/2301.01234v2.pdf'')))
       = canonical (normalizeArxivId ''https://arxiv.org/pdf/2301.01234v2.pdf'')"
proof -
  have v: "valid_raw (Url ''https://'' Pdf True) (NewStyle ''2301'' ''01234'') (Some ''2'')"
    by (simp add: valid_raw_def url_prefixes_def digits_def is_digit_def)
  have r: "raw_string (Url ''https://'' Pdf True) (NewStyle ''2301'' ''01234'') (Some ''2'')
             = ''https://arxiv.org/pdf/2301.01234v2.pdf''"
    by (simp add: versioned_string_def)
  from normalize_idempotent[OF v] v r show ?thesis by simp
qed

text \<open>
  C6, as stated: for every input string the canonical id never ends with a version
  suffix. The normalizer strips one suffix only, so a stacked suffix survives.
\<close>

theorem canonical_suffix_counterexample:
  "has_version_suffix (canonical (normalizeArxivId ''2301.01234v1v2''))"
  by code_simp

text \<open>
  C6, amended. For every input string \<open>versioned\<close> is present exactly when \<open>version\<close>
  is, and then \<open>versioned\<close> is \<open>canonical\<close> followed by \<^verbatim>\<open>v\<close> and a string of
  digits: exactly one suffix has been stripped. When the decimal value of these digits is
  below \<open>2^53\<close>, it is the version. For every valid raw identifier the canonical id has
  no trailing version suffix.
\<close>

theorem normalize_invariant:
  "(version (normalizeArxivId x) = None \<longleftrightarrow> versioned (normalizeArxivId x) = None)
   \<and> (\<forall>n. version (normalizeArxivId x) = Some n \<longrightarrow>
         (\<exists>k. digits k \<and> (parseInt k < 2 ^ 53 \<longrightarrow> n = parseInt k)
            \<and> versioned (normalizeArxivId x)
                = Some (canonical (normalizeArxivId x) @ CHR ''v'' # k)))
   \<and> (valid_raw form base ver \<longrightarrow>
         \<not> has_version_suffix (canonical (normalizeArxivId (raw_string form base ver))))"
proof (intro conjI allI impI)
  show "version (normalizeArxivId x) = None \<longleftrightarrow> versioned (normalizeArxivId x) = None"
    by (rule normalize_version_fields)
next
  fix n
  assume "version (normalizeArxivId x) = Some n"
  then obtain k where "digits k" "n = parseInt k"
      "versioned (normalizeArxivId x) = Some (canonical (normalizeArxivId x) @ CHR ''v'' # k)"
    using normalize_strips_one_suffix by blast
  then show "\<exists>k. digits k \<and> (parseInt k < 2 ^ 53 \<longrightarrow> n = parseInt k)
            \<and> versioned (normalizeArxivId x)
                = Some (canonical (normalizeArxivId x) @ CHR ''v'' # k)"
    by blast
next
  assume v: "valid_raw form base ver"
  then have vb: "valid_base base" by (simp add: valid_raw_def)
  have "canonical (normalizeArxivId (raw_string form base ver)) = base_string base"
    using normalize_valid[OF v] by simp
  then show "\<not> has_version_suffix (canonical (normalizeArxivId (raw_string form base ver)))"
    using base_no_version_suffix[OF vb] by simp
qed

theorem normalize_invariant_witness:
  "version (normalizeArxivId ''cs/9901001v3'') = Some 3
   \<and> valid_raw Bare (OldStyle ''cs'' ''9901001'') (Some ''3'')
   \<and> raw_string Bare (OldStyle ''cs'' ''9901001'') (Some ''3'') = ''cs/9901001v3''
   \<and> (\<exists>k. digits k \<and> parseInt k < 2 ^ 53 \<and> 3 = parseInt k
          \<and> versioned (normalizeArxivId ''cs/9901001v3'')
              = Some (canonical (normalizeArxivId ''cs/9901001v3'') @ CHR ''v'' # k))
   \<and> \<not> has_version_suffix (canonical (normalizeArxivId ''cs/9901001v3''))"
proof -
  have e: "version (normalizeArxivId ''cs/9901001v3'') = Some 3"
    by code_simp
  have c: "canonical (normalizeArxivId ''cs/9901001v3'') = ''cs/9901001''"
    by code_simp
  have d: "versioned (normalizeArxivId ''cs/9901001v3'') = Some ''cs/9901001v3''"
    by code_simp
  have p: "parseInt ''3'' = 3"
    by (simp add: parseInt_def digit_val_def)
  have v: "valid_raw Bare (OldStyle ''cs'' ''9901001'') (Some ''3'')"
    by (simp add: valid_raw_def digits_def is_digit_def is_subject_char_def)
  have r: "raw_string Bare (OldStyle ''cs'' ''9901001'') (Some ''3'') = ''cs/9901001v3''"
    by (simp add: versioned_string_def)
  note main = normalize_invariant[of "''cs/9901001v3''" Bare "OldStyle ''cs'' ''9901001''" "Some ''3''"]
  from main e obtain k where k: "digits k" "parseInt k < 2 ^ 53 \<longrightarrow> 3 = parseInt k"
      "versioned (normalizeArxivId ''cs/9901001v3'')
         = Some (canonical (normalizeArxivId ''cs/9901001v3'') @ CHR ''v'' # k)"
    by blast
  from k(3) c d have k3: "k = ''3''" by simp
  have "parseInt k < 2 ^ 53" unfolding k3 p by simp
  with k have "\<exists>k. digits k \<and> parseInt k < 2 ^ 53 \<and> 3 = parseInt k
          \<and> versioned (normalizeArxivId ''cs/9901001v3'')
              = Some (canonical (normalizeArxivId ''cs/9901001v3'') @ CHR ''v'' # k)"
    by blast
  moreover from main v r
  have "\<not> has_version_suffix (canonical (normalizeArxivId ''cs/9901001v3''))" by simp
  ultimately show ?thesis using e v r by blast
qed

section \<open>The feed parser: totality and skipped entries\<close>

lemma parseEntry_paper_iff: "(\<exists>p. parseEntry e = Inr (Some p)) \<longleftrightarrow> well_formed e"
  by (auto simp: parseEntry_def well_formed_def Let_def truthy_field_def truthy_value_def
        nonempty_string_def absent_or_string_def
        split: option.splits xml_value.splits)








section \<open>The feed parser: link resolution\<close>

lemma link_loop:
  "foldl link_step (u, p) ls =
     ((case last_alternate_href ls of Some h \<Rightarrow> h | None \<Rightarrow> u),
      (if filter is_pdf_link ls = [] then p else last_pdf_href ls))"
proof (induction ls rule: rev_induct)
  case Nil
  show ?case by (simp add: last_alternate_href_def last_pdf_href_def)
next
  case (snoc l ls)
  have "foldl link_step (u, p) (ls @ [l]) = link_step (foldl link_step (u, p) ls) l" by simp
  also have "\<dots> = link_step ((case last_alternate_href ls of Some h \<Rightarrow> h | None \<Rightarrow> u),
      (if filter is_pdf_link ls = [] then p else last_pdf_href ls)) l"
    by (simp only: snoc.IH)
  also have "\<dots> = ((case last_alternate_href (ls @ [l]) of Some h \<Rightarrow> h | None \<Rightarrow> u),
      (if filter is_pdf_link (ls @ [l]) = [] then p else last_pdf_href (ls @ [l])))"
    by (cases "href l")
       (simp_all add: link_step_def last_alternate_href_def last_pdf_href_def
          is_alternate_html_def is_pdf_link_def)
  finally show ?case .
qed

lemma resolve_links_last:
  "resolve_links i (entry_link e) =
     ((case last_alternate_href (links_of e) of Some h \<Rightarrow> h | None \<Rightarrow> i),
      last_pdf_href (links_of e))"
proof (cases "entry_link e")
  case None
  then show ?thesis
    by (simp add: resolve_links_def links_of_def last_alternate_href_def last_pdf_href_def)
next
  case (Some ls)
  have "(if filter is_pdf_link ls = [] then None else last_pdf_href ls) = last_pdf_href ls"
    by (simp add: last_pdf_href_def)
  with Some show ?thesis by (simp add: resolve_links_def links_of_def link_loop)
qed

text \<open>
  C9, as stated: \<open>pdfUrl\<close> is the href of the first link typed as PDF. With two PDF
  links the parser returns the href of the second one.
\<close>

theorem first_pdf_link_counterexample:
  "map pdfUrl (parseArxivAtom (feed_of [two_pdf_entry]) ''<feed/>'')
     = [Some ''http://arxiv.org/pdf/2301.01234v2'']
   \<and> spec_pdfUrl (links_of two_pdf_entry) = Some ''http://arxiv.org/pdf/2301.01234v1''"
  by (simp add: parseArxivAtom_def feed_of_def parseEntry_def two_pdf_entry_def
        example_entry_def truthy_field_def truthy_value_def resolve_links_def link_step_def
        pdf_link_def html_link_def spec_pdfUrl_def links_of_def is_pdf_link_def Let_def)

text \<open>
  C9, amended. For every feed entry that yields a paper, the paper's web-page url is
  the href of the last alternate HTML-typed link that carries an href (otherwise the
  entry's raw identifier URI), and \<open>pdfUrl\<close> is the href of the last link typed
  application/pdf (absent when there is no such link, or when that link has no href).
\<close>

theorem link_resolution:
  assumes "parseEntry e = Inr (Some paper)"
  shows "url paper = (case last_alternate_href (links_of e) of
                        Some h \<Rightarrow> h
                      | None \<Rightarrow> text_of (the (entry_id e)))
         \<and> pdfUrl paper = last_pdf_href (links_of e)"
  using assms
  by (auto simp: parseEntry_def Let_def resolve_links_last
        split: if_splits xml_value.splits option.splits)

theorem link_resolution_witness:
  "\<exists>p. parseEntry two_pdf_entry = Inr (Some p)
     \<and> url p = ''http://arxiv.org/abs/2301.01234v2''
     \<and> pdfUrl p = Some ''http://arxiv.org/pdf/2301.01234v2''"
proof -
  have w: "well_formed two_pdf_entry"
    by (simp add: well_formed_def two_pdf_entry_def example_entry_def nonempty_string_def
          absent_or_string_def truthy_field_def truthy_value_def)
  then obtain p where p: "parseEntry two_pdf_entry = Inr (Some p)"
    using parseEntry_paper_iff[of two_pdf_entry] by blast
  have a: "last_alternate_href (links_of two_pdf_entry) = Some ''http://arxiv.org/abs/2301.01234v2''"
    by (simp add: last_alternate_href_def links_of_def two_pdf_entry_def example_entry_def
          html_link_def pdf_link_def is_alternate_html_def)
  have b: "last_pdf_href (links_of two_pdf_entry) = Some ''http://arxiv.org/pdf/2301.01234v2''"
    by (simp add: last_pdf_href_def links_of_def two_pdf_entry_def example_entry_def
          html_link_def pdf_link_def is_pdf_link_def)
  from link_resolution[OF p] p a b show ?thesis by simp
qed

section \<open>The query builder: escaping of the search query\<close>

text \<open>
  C8. The \<^verbatim>\<open>search_query\<close> parameter decodes to \<^verbatim>\<open>all:\<close> and the raw query when
  no categories are given. The builder percent-escapes the query before it hands it to
  the parameter list, which escapes it again: for the query \<^verbatim>\<open>diffusion models\<close> the
  parameter decodes to \<^verbatim>\<open>all:diffusion%20models\<close> and the URL carries
  \<^verbatim>\<open>%2520\<close>, where the repository's own test expects \<^verbatim>\<open>+\<close> or \<^verbatim>\<open>%20\<close>.
\<close>

theorem search_query_double_escaped:
  "search_query_param ''diffusion models'' None = ''all:diffusion%20models''
   \<and> spec_search_query ''diffusion models'' None = ''all:diffusion models''
   \<and> buildArxivQueryUrl ''diffusion models'' no_options
       = ''https://export.arxiv.org/api/query?search_query=all%3Adiffusion%2520models&start=0&max_results=10&sortBy=relevance&sortOrder=descending''
   \<and> search_query_param ''test'' (Some [''cs.AI'', ''cs.LG''])
       = ''all:(test)+AND+(cat:cs.AI+OR+cat:cs.LG)''
   \<and> spec_search_query ''test'' (Some [''cs.AI'', ''cs.LG''])
       = ''all:(test) AND (cat:cs.AI OR cat:cs.LG)''"
  by code_simp

section \<open>Properties of the library store\<close>

lemma saved_papers_updateLibraryPreview [simp]:
  "saved_papers (updateLibraryPreview e a) = saved_papers a"
  by (simp add: updateLibraryPreview_def)

lemma paper_summaries_updateLibraryPreview [simp]:
  "paper_summaries (updateLibraryPreview e a) = paper_summaries a"
  by (simp add: updateLibraryPreview_def)

lemma requested_updateLibraryPreview [simp]:
  "requested (updateLibraryPreview e a) = requested a"
  by (simp add: updateLibraryPreview_def)

lemma set_add_all_set: "set (set_add_all acc xs) = set acc \<union> set xs"
  by (induction xs arbitrary: acc) auto

lemma set_add_all_distinct: "distinct acc \<Longrightarrow> distinct (set_add_all acc xs)"
  by (induction xs arbitrary: acc) auto

lemma array_from_set_set: "set (array_from_set xs) = set xs"
  by (simp add: array_from_set_def set_add_all_set)

lemma array_from_set_distinct: "distinct (array_from_set xs)"
  by (simp add: array_from_set_def set_add_all_distinct)

lemma select_update_tags:
  "select_by_id (update_tags rows c ts) c = map (\<lambda>r. r\<lparr>row_tags := ts\<rparr>) (select_by_id rows c)"
  by (induction rows) (simp_all add: select_by_id_def update_tags_def)

lemma select_update_tags_other:
  "c' \<noteq> c \<Longrightarrow> select_by_id (update_tags rows c ts) c' = select_by_id rows c'"
  by (induction rows) (simp_all add: select_by_id_def update_tags_def)

lemma length_update_tags: "length (update_tags rows c ts) = length rows"
  by (simp add: update_tags_def)

lemma select_delete: "select_by_id (delete_by_id rows c) c = []"
  by (induction rows) (simp_all add: select_by_id_def delete_by_id_def)

lemma select_delete_other:
  "c' \<noteq> c \<Longrightarrow> select_by_id (delete_by_id rows c) c' = select_by_id rows c'"
  by (induction rows) (simp_all add: select_by_id_def delete_by_id_def)

lemma savePaper_existing:
  assumes "select_by_id (saved_papers a) (canonical (normalizeArxivId x)) = existing # rest"
    and "\<not> sql_throws e SelectExisting" "\<not> sql_throws e UpdateTags"
  shows "savePaper e a x (Some ts) =
           (\<lparr>save_arxivId = canonical (normalizeArxivId x), save_title = row_title existing,
             save_tags = array_from_set (row_tags existing @ ts),
             save_savedAt = saved_at existing, wasAlreadySaved = True, save_error = None\<rparr>,
            updateLibraryPreview e
              (a\<lparr>saved_papers := update_tags (saved_papers a) (canonical (normalizeArxivId x))
                     (array_from_set (row_tags existing @ ts))\<rparr>))"
  using assms by (simp add: savePaper_def Let_def)

lemma savePaper_new:
  assumes "select_by_id (saved_papers a) (canonical (normalizeArxivId x)) = []"
    and "\<not> sql_throws e SelectExisting" "\<not> sql_throws e InsertPaper"
    and "fetchArxivPaperById (fetchImpl e) (xml_parse e) (canonical (normalizeArxivId x))
           = Inr (Some paper)"
  shows "savePaper e a x (Some ts) =
           (\<lparr>save_arxivId = canonical (normalizeArxivId x), save_title = title paper,
             save_tags = ts, save_savedAt = now e, wasAlreadySaved = False,
             save_error = None\<rparr>,
            updateLibraryPreview e
              (a\<lparr>requested := requested a @ [request_url (canonical (normalizeArxivId x))],
                 saved_papers := saved_papers a
                   @ [inserted_row (canonical (normalizeArxivId x)) paper ts (now e)]\<rparr>))"
  using assms
  by (simp add: savePaper_def Let_def fetch_paper_def insert_row_def inserted_row_def)

lemma parse_two_pdf_entry:
  "parseEntry two_pdf_entry =
     Inr (Some \<lparr>arxivId = canonical (normalizeArxivId ''http://arxiv.org/abs/2301.01234v2''),
           arxivIdVersioned = versioned (normalizeArxivId ''http://arxiv.org/abs/2301.01234v2''),
           paper_version = version (normalizeArxivId ''http://arxiv.org/abs/2301.01234v2''),
           title = clean_text ''A Great Paper'',
           authors = [Str ''Alice Smith''],
           published = Str ''2023-01-15T00:00:00Z'',
           updated = None,
           abstract = clean_text ''An abstract.'',
           url = ''http://arxiv.org/abs/2301.01234v2'',
           categories_of = None,
           pdfUrl = Some ''http://arxiv.org/pdf/2301.01234v2''\<rparr>)"
  by (simp add: parseEntry_def two_pdf_entry_def example_entry_def truthy_field_def
        truthy_value_def Let_def resolve_links_def link_step_def html_link_def pdf_link_def
        author_names_def)

lemma example_fetch:
  "fetchArxivPaperById (fetchImpl (example_env [two_pdf_entry]))
     (xml_parse (example_env [two_pdf_entry])) i = Inr (Some (paper_of two_pdf_entry))"
proof -
  have "parseArxivAtom (feed_of [two_pdf_entry]) ''<feed/>'' = [paper_of two_pdf_entry]"
    by (simp add: parseArxivAtom_def feed_of_def parse_two_pdf_entry paper_of_def)
  then show ?thesis
    by (simp add: fetchArxivPaperById_def example_env_def Let_def)
qed

section \<open>Save: merging the tags of a repeated save\<close>

text \<open>
  C1. Let \<open>c\<close> be a canonical id with no stored row, and let two saves of raw ids with
  that canonical id follow each other, with tag lists \<open>T1\<close> then \<open>T2\<close>, the storage
  engine working and the first fetch returning a paper. Then the first save reports
  \<open>wasAlreadySaved = false\<close> and stores one row for \<open>c\<close> with the fetched title, abstract
  and url; the second reports \<open>wasAlreadySaved = true\<close> and leaves exactly one row for
  \<open>c\<close>, equal to the first one except for its tags, which are the set union of \<open>T1\<close>
  and \<open>T2\<close>.
\<close>

theorem save_twice_merges_tags:
  assumes c1: "canonical (normalizeArxivId x1) = c"
    and c2: "canonical (normalizeArxivId x2) = c"
    and fresh: "select_by_id (saved_papers a) c = []"
    and ok1: "\<forall>s. \<not> sql_throws e1 s"
    and ok2: "\<forall>s. \<not> sql_throws e2 s"
    and fetched: "fetchArxivPaperById (fetchImpl e1) (xml_parse e1) c = Inr (Some paper)"
    and s1: "savePaper e1 a x1 (Some T1) = (r1, a1)"
    and s2: "savePaper e2 a1 x2 (Some T2) = (r2, a2)"
  shows "\<exists>row1 row2.
           select_by_id (saved_papers a1) c = [row1]
         \<and> select_by_id (saved_papers a2) c = [row2]
         \<and> row_title row1 = title paper \<and> row_abstract row1 = abstract paper
         \<and> row_url row1 = url paper \<and> row_tags row1 = T1
         \<and> row2 = row1\<lparr>row_tags := row_tags row2\<rparr>
         \<and> set (row_tags row2) = set T1 \<union> set T2 \<and> distinct (row_tags row2)
         \<and> length (saved_papers a2) = length (saved_papers a) + 1
         \<and> \<not> wasAlreadySaved r1 \<and> wasAlreadySaved r2
         \<and> save_error r1 = None \<and> save_error r2 = None
         \<and> save_tags r2 = row_tags row2"
proof -
  define row1 where "row1 = inserted_row c paper T1 (now e1)"
  define merged where "merged = array_from_set (T1 @ T2)"
  have first: "savePaper e1 a x1 (Some T1) =
      (\<lparr>save_arxivId = c, save_title = title paper, save_tags = T1, save_savedAt = now e1,
        wasAlreadySaved = False, save_error = None\<rparr>,
       updateLibraryPreview e1
         (a\<lparr>requested := requested a @ [request_url c],
            saved_papers := saved_papers a @ [row1]\<rparr>))"
    using savePaper_new[of a x1 e1 paper T1] c1 fresh ok1 fetched by (simp add: row1_def)
  with s1 have r1: "r1 = \<lparr>save_arxivId = c, save_title = title paper, save_tags = T1,
        save_savedAt = now e1, wasAlreadySaved = False, save_error = None\<rparr>"
    and a1: "saved_papers a1 = saved_papers a @ [row1]"
    by auto
  have sel1: "select_by_id (saved_papers a1) c = [row1]"
    using a1 fresh by (simp add: select_by_id_def row1_def inserted_row_def)
  have second: "savePaper e2 a1 x2 (Some T2) =
      (\<lparr>save_arxivId = c, save_title = row_title row1, save_tags = merged,
        save_savedAt = saved_at row1, wasAlreadySaved = True, save_error = None\<rparr>,
       updateLibraryPreview e2 (a1\<lparr>saved_papers := update_tags (saved_papers a1) c merged\<rparr>))"
    using savePaper_existing[of a1 x2 row1 "[]" e2 T2] c2 sel1 ok2
    by (simp add: merged_def row1_def inserted_row_def)
  with s2 have r2: "r2 = \<lparr>save_arxivId = c, save_title = row_title row1, save_tags = merged,
        save_savedAt = saved_at row1, wasAlreadySaved = True, save_error = None\<rparr>"
    and a2: "saved_papers a2 = update_tags (saved_papers a1) c merged"
    by auto
  have sel2: "select_by_id (saved_papers a2) c = [row1\<lparr>row_tags := merged\<rparr>]"
    using a2 sel1 by (simp add: select_update_tags)
  have len: "length (saved_papers a2) = length (saved_papers a) + 1"
    using a1 a2 by (simp add: length_update_tags)
  have tags: "set merged = set T1 \<union> set T2" "distinct merged"
    by (simp_all add: merged_def array_from_set_set array_from_set_distinct)
  have fields: "row_title row1 = title paper" "row_abstract row1 = abstract paper"
    "row_url row1 = url paper" "row_tags row1 = T1"
    by (simp_all add: row1_def inserted_row_def)
  have "select_by_id (saved_papers a1) c = [row1]
         \<and> select_by_id (saved_papers a2) c = [row1\<lparr>row_tags := merged\<rparr>]
         \<and> row_title row1 = title paper \<and> row_abstract row1 = abstract paper
         \<and> row_url row1 = url paper \<and> row_tags row1 = T1
         \<and> row1\<lparr>row_tags := merged\<rparr> = row1\<lparr>row_tags := row_tags (row1\<lparr>row_tags := merged\<rparr>)\<rparr>
         \<and> set (row_tags (row1\<lparr>row_tags := merged\<rparr>)) = set T1 \<union> set T2
         \<and> distinct (row_tags (row1\<lparr>row_tags := merged\<rparr>))
         \<and> length (saved_papers a2) = length (saved_papers a) + 1
         \<and> \<not> wasAlreadySaved r1 \<and> wasAlreadySaved r2
         \<and> save_error r1 = None \<and> save_error r2 = None
         \<and> save_tags r2 = row_tags (row1\<lparr>row_tags := merged\<rparr>)"
    using sel1 sel2 len tags fields r1 r2 by simp
  then show ?thesis by blast
qed

theorem save_twice_merges_tags_witness:
  "canonical (normalizeArxivId ''2301.01234v2'') = ''2301.01234''
   \<and> canonical (normalizeArxivId ''https://arxiv.org/abs/2301.01234'') = ''2301.01234''
   \<and> select_by_id (saved_papers (library_of [])) ''2301.01234'' = []
   \<and> (\<forall>s. \<not> sql_throws (example_env [two_pdf_entry]) s)
   \<and> \<not> wasAlreadySaved (fst (savePaper (example_env [two_pdf_entry]) (library_of [])
          ''2301.01234v2'' (Some [''a'', ''b''])))
   \<and> wasAlreadySaved (fst (savePaper (example_env [two_pdf_entry])
          (snd (savePaper (example_env [two_pdf_entry]) (library_of [])
             ''2301.01234v2'' (Some [''a'', ''b''])))
          ''https://arxiv.org/abs/2301.01234'' (Some [''b'', ''c''])))
   \<and> set (save_tags (fst (savePaper (example_env [two_pdf_entry])
          (snd (savePaper (example_env [two_pdf_entry]) (library_of [])
             ''2301.01234v2'' (Some [''a'', ''b''])))
          ''https://arxiv.org/abs/2301.01234'' (Some [''b'', ''c'']))))
       = {''a'', ''b'', ''c''}
   \<and> length (saved_papers (snd (savePaper (example_env [two_pdf_entry])
          (snd (savePaper (example_env [two_pdf_entry]) (library_of [])
             ''2301.01234v2'' (Some [''a'', ''b''])))
          ''https://arxiv.org/abs/2301.01234'' (Some [''b'', ''c''])))) = 1"
proof -
  let ?e = "example_env [two_pdf_entry]"
  let ?s1 = "savePaper ?e (library_of []) ''2301.01234v2'' (Some [''a'', ''b''])"
  let ?s2 = "savePaper ?e (snd ?s1) ''https://arxiv.org/abs/2301.01234'' (Some [''b'', ''c''])"
  have c1: "canonical (normalizeArxivId ''2301.01234v2'') = ''2301.01234''" by code_simp
  have c2: "canonical (normalizeArxivId ''https://arxiv.org/abs/2301.01234'') = ''2301.01234''"
    by code_simp
  have fresh: "select_by_id (saved_papers (library_of [])) ''2301.01234'' = []"
    by (simp add: library_of_def select_by_id_def)
  have ok: "\<forall>s. \<not> sql_throws ?e s" by (simp add: example_env_def)
  have p1: "?s1 = (fst ?s1, snd ?s1)" by (rule prod.collapse[symmetric])
  have p2: "?s2 = (fst ?s2, snd ?s2)" by (rule prod.collapse[symmetric])
  have u: "set [''a'', ''b''] \<union> set [''b'', ''c''] = {''a'', ''b'', ''c''}" by auto
  have l0: "length (saved_papers (library_of [])) = 0" by (simp add: library_of_def)
  note main = save_twice_merges_tags[OF c1 c2 fresh ok ok example_fetch p1 p2]
  have w1: "\<not> wasAlreadySaved (fst ?s1)" using main by (elim exE conjE)
  have w2: "wasAlreadySaved (fst ?s2)" using main by (elim exE conjE)
  have ln: "length (saved_papers (snd ?s2)) = 1"
    using main l0 by (elim exE conjE) (simp only: add_0)
  have tg: "set (save_tags (fst ?s2)) = {''a'', ''b'', ''c''}"
    using main u by (elim exE conjE) (simp only:)
  from c1 c2 fresh ok w1 w2 tg ln show ?thesis by (intro conjI)
qed

section \<open>List: limit and truncation\<close>

lemma take_prefix_iff: "take (length t) s = t \<longleftrightarrow> (\<exists>suf. s = t @ suf)"
proof
  assume "take (length t) s = t"
  then have "s = t @ drop (length t) s" by (metis append_take_drop_id)
  then show "\<exists>suf. s = t @ suf" ..
next
  assume "\<exists>suf. s = t @ suf"
  then show "take (length t) s = t" by auto
qed

lemma str_includes_iff: "str_includes s t \<longleftrightarrow> (\<exists>pre suf. s = pre @ t @ suf)"
proof (induction s)
  case Nil
  show ?case by auto
next
  case (Cons c cs)
  have "(\<exists>pre suf. c # cs = pre @ t @ suf)
          \<longleftrightarrow> (\<exists>suf. c # cs = t @ suf) \<or> (\<exists>pre suf. cs = pre @ t @ suf)"
  proof
    assume "\<exists>pre suf. c # cs = pre @ t @ suf"
    then obtain pre suf where p: "c # cs = pre @ t @ suf" by blast
    show "(\<exists>suf. c # cs = t @ suf) \<or> (\<exists>pre suf. cs = pre @ t @ suf)"
    proof (cases pre)
      case Nil
      with p show ?thesis by auto
    next
      case (Cons d pre')
      with p have "cs = pre' @ t @ suf" by simp
      then show ?thesis by blast
    qed
  next
    assume "(\<exists>suf. c # cs = t @ suf) \<or> (\<exists>pre suf. cs = pre @ t @ suf)"
    then show "\<exists>pre suf. c # cs = pre @ t @ suf"
    proof
      assume "\<exists>suf. c # cs = t @ suf"
      then obtain suf where "c # cs = [] @ t @ suf" by auto
      then show ?thesis by blast
    next
      assume "\<exists>pre suf. cs = pre @ t @ suf"
      then obtain pre suf where "c # cs = (c # pre) @ t @ suf" by auto
      then show ?thesis by blast
    qed
  qed
  then show ?case using Cons.IH take_prefix_iff[of t "c # cs"] by simp
qed

lemma occurs_at_iff:
  "occurs_at i t s \<longleftrightarrow> (\<exists>pre suf. s = pre @ t @ suf \<and> length pre = i)"
proof
  assume o: "occurs_at i t s"
  then have "take (length t) (drop i s) = t" "i \<le> length s" by (simp_all add: occurs_at_def)
  then obtain suf where "drop i s = t @ suf" using take_prefix_iff[of t "drop i s"] by blast
  then have "s = take i s @ t @ suf" by (metis append_take_drop_id)
  moreover have "length (take i s) = i" using \<open>i \<le> length s\<close> by simp
  ultimately show "\<exists>pre suf. s = pre @ t @ suf \<and> length pre = i" by blast
next
  assume "\<exists>pre suf. s = pre @ t @ suf \<and> length pre = i"
  then show "occurs_at i t s" by (auto simp: occurs_at_def)
qed

lemma is_substring_position: "is_substring t s \<longleftrightarrow> (\<exists>i \<le> length s. occurs_at i t s)"
proof -
  have "is_substring t s \<longleftrightarrow> (\<exists>i \<in> {0..<Suc (length s)}. occurs_at i t s)"
    by (simp only: is_substring_def list_ex_iff set_upt)
  also have "\<dots> \<longleftrightarrow> (\<exists>i \<le> length s. occurs_at i t s)"
    by (auto simp: atLeastLessThanSuc_atLeastAtMost)
  finally show ?thesis .
qed

text \<open>The substring test of the specification says what it should.\<close>

lemma is_substring_iff: "is_substring t s \<longleftrightarrow> (\<exists>pre suf. s = pre @ t @ suf)"
proof
  assume "is_substring t s"
  then obtain i where "occurs_at i t s" using is_substring_position by blast
  then show "\<exists>pre suf. s = pre @ t @ suf" using occurs_at_iff by blast
next
  assume "\<exists>pre suf. s = pre @ t @ suf"
  then obtain pre suf where p: "s = pre @ t @ suf" by blast
  then have "occurs_at (length pre) t s" using occurs_at_iff by blast
  moreover have "length pre \<le> length s" using p by simp
  ultimately show "is_substring t s" using is_substring_position by blast
qed

lemma str_includes_substring: "str_includes s t \<longleftrightarrow> is_substring t s"
  by (simp add: str_includes_iff is_substring_iff)

lemma list_ex_member: "list_ex (\<lambda>t. f t = y) xs \<longleftrightarrow> y \<in> set (map f xs)"
  by (induction xs) auto

lemma tag_filter_matches: "tag_filter tag row \<longleftrightarrow> spec_tag_matches tag row"
  by (cases tag)
     (simp_all add: tag_filter_def spec_tag_matches_def truthy_def supplied_def list_ex_member)

lemma text_filter_matches: "text_filter ft row \<longleftrightarrow> spec_text_matches ft row"
  by (cases ft)
     (auto simp: text_filter_def spec_text_matches_def truthy_def supplied_def Let_def
        str_includes_substring)

lemma filters_match:
  "filter (\<lambda>row. tag_filter tag row \<and> text_filter ft row) rows = filter (spec_matches ft tag) rows"
  by (induction rows) (simp_all add: spec_matches_def tag_filter_matches text_filter_matches)

lemma matching_in_order_mset:
  assumes "orders_desc (order_desc e) rows"
  shows "mset (matching_in_order e ft tag rows) = mset (filter (spec_matches ft tag) rows)"
  using assms by (simp add: matching_in_order_def orders_desc_def)

lemma matching_in_order_sorted:
  assumes "orders_desc (order_desc e) rows"
  shows "sorted_wrt (\<lambda>x y. saved_at y \<le> saved_at x) (matching_in_order e ft tag rows)"
  unfolding matching_in_order_def using assms
  by (intro sorted_wrt_filter) (simp add: orders_desc_def)

lemma matching_in_order_length:
  assumes "orders_desc (order_desc e) rows"
  shows "length (matching_in_order e ft tag rows) = length (filter (spec_matches ft tag) rows)"
  using matching_in_order_mset[OF assms, of ft tag] by (rule mset_eq_length)

lemma backward_index_scan_orders: "orders_desc backward_index_scan rows"
proof -
  have "sorted (map saved_at (sort_key saved_at rows))" by simp
  then have "sorted_wrt (\<lambda>x y. saved_at x \<le> saved_at y) (sort_key saved_at rows)"
    by (simp add: sorted_map)
  then have "sorted_wrt (\<lambda>x y. saved_at y \<le> saved_at x) (rev (sort_key saved_at rows))"
    by (simp add: sorted_wrt_rev)
  then show ?thesis by (simp add: orders_desc_def backward_index_scan_def)
qed

lemma listSavedPapers_answer:
  assumes "0 < L" "L \<le> 100" "\<not> sql_throws e SelectAll"
  shows "listSavedPapers e a ft tag (Some L) =
      \<lparr>papers = map listed_of (take L (matching_in_order e ft tag (saved_papers a))),
       filterText_of = ft, tagFilter = tag,
       totalCount = length (matching_in_order e ft tag (saved_papers a)),
       wasTruncated = (L < length (matching_in_order e ft tag (saved_papers a))),
       list_error = None\<rparr>"
  using assms
  by (simp add: listSavedPapers_def Let_def min_def filters_match matching_in_order_def)

text \<open>
  C4. For every library state and every list call with a positive limit \<open>L\<close> of at
  most 100 (the storage engine answering the query with the rows of the table ordered by
  \<open>savedAt\<close> descending), the returned papers are, field by field, the first \<open>L\<close> of
  the rows that match the tag and text filters, ordered by \<open>savedAt\<close> descending;
  \<open>totalCount\<close> is the number of matching rows of the table; and \<open>wasTruncated\<close> holds
  exactly when \<open>totalCount > L\<close>. In particular limit 5 against 8 matching rows gives 5
  papers and \<open>wasTruncated\<close>, and against exactly 5 matching rows 5 papers and no
  truncation.
\<close>

theorem list_limit_and_truncation:
  assumes "0 < L" "L \<le> 100" "\<not> sql_throws e SelectAll"
    and "orders_desc (order_desc e) (saved_papers a)"
  shows "map listed_arxivId (papers (listSavedPapers e a ft tag (Some L)))
           = map arxiv_id (take L (matching_in_order e ft tag (saved_papers a)))
         \<and> map listed_title (papers (listSavedPapers e a ft tag (Some L)))
           = map row_title (take L (matching_in_order e ft tag (saved_papers a)))
         \<and> map listed_authors (papers (listSavedPapers e a ft tag (Some L)))
           = map row_authors (take L (matching_in_order e ft tag (saved_papers a)))
         \<and> map listed_published (papers (listSavedPapers e a ft tag (Some L)))
           = map row_published (take L (matching_in_order e ft tag (saved_papers a)))
         \<and> map listed_abstract (papers (listSavedPapers e a ft tag (Some L)))
           = map row_abstract (take L (matching_in_order e ft tag (saved_papers a)))
         \<and> map listed_url (papers (listSavedPapers e a ft tag (Some L)))
           = map row_url (take L (matching_in_order e ft tag (saved_papers a)))
         \<and> map listed_tags (papers (listSavedPapers e a ft tag (Some L)))
           = map row_tags (take L (matching_in_order e ft tag (saved_papers a)))
         \<and> map listed_savedAt (papers (listSavedPapers e a ft tag (Some L)))
           = map saved_at (take L (matching_in_order e ft tag (saved_papers a)))
         \<and> mset (matching_in_order e ft tag (saved_papers a))
             = mset (filter (spec_matches ft tag) (saved_papers a))
         \<and> sorted_wrt (\<lambda>x y. saved_at y \<le> saved_at x)
             (matching_in_order e ft tag (saved_papers a))
         \<and> totalCount (listSavedPapers e a ft tag (Some L))
             = length (filter (spec_matches ft tag) (saved_papers a))
         \<and> (wasTruncated (listSavedPapers e a ft tag (Some L))
              \<longleftrightarrow> L < totalCount (listSavedPapers e a ft tag (Some L)))
         \<and> list_error (listSavedPapers e a ft tag (Some L)) = None
         \<and> (L = 5 \<and> length (filter (spec_matches ft tag) (saved_papers a)) = 8 \<longrightarrow>
               length (papers (listSavedPapers e a ft tag (Some L))) = 5
               \<and> wasTruncated (listSavedPapers e a ft tag (Some L)))
         \<and> (L = 5 \<and> length (filter (spec_matches ft tag) (saved_papers a)) = 5 \<longrightarrow>
               length (papers (listSavedPapers e a ft tag (Some L))) = 5
               \<and> \<not> wasTruncated (listSavedPapers e a ft tag (Some L)))"
proof -
  let ?m = "matching_in_order e ft tag (saved_papers a)"
  note eq = listSavedPapers_answer[OF assms(1-3), of a ft tag]
  note len = matching_in_order_length[OF assms(4), of ft tag]
  have fields: "map listed_arxivId (map listed_of (take L ?m)) = map arxiv_id (take L ?m)"
    "map listed_title (map listed_of (take L ?m)) = map row_title (take L ?m)"
    "map listed_authors (map listed_of (take L ?m)) = map row_authors (take L ?m)"
    "map listed_published (map listed_of (take L ?m)) = map row_published (take L ?m)"
    "map listed_abstract (map listed_of (take L ?m)) = map row_abstract (take L ?m)"
    "map listed_url (map listed_of (take L ?m)) = map row_url (take L ?m)"
    "map listed_tags (map listed_of (take L ?m)) = map row_tags (take L ?m)"
    "map listed_savedAt (map listed_of (take L ?m)) = map saved_at (take L ?m)"
    by (simp_all add: listed_of_def)
  show ?thesis
    unfolding eq using fields len matching_in_order_mset[OF assms(4), of ft tag]
      matching_in_order_sorted[OF assms(4), of ft tag]
    by simp
qed

theorem list_limit_and_truncation_witness:
  "(0::nat) < 2 \<and> (2::nat) \<le> 100 \<and> \<not> sql_throws (example_env []) SelectAll
   \<and> orders_desc (order_desc (example_env []))
        (saved_papers (library_of
          [tagged_row ''2301.00001'' ''Diffusion Models'' [''ML''] 5,
           tagged_row ''2301.00002'' ''Graph Theory'' [''ml''] 5,
           tagged_row ''2301.00003'' ''Latent diffusion'' [''Ml'', ''vision''] 5,
           tagged_row ''2301.00004'' ''Diffusion in physics'' [''physics''] 9,
           tagged_row ''2301.00005'' ''Old diffusion'' [''ml''] 2]))
   \<and> map listed_title (papers (listSavedPapers (example_env [])
        (library_of
          [tagged_row ''2301.00001'' ''Diffusion Models'' [''ML''] 5,
           tagged_row ''2301.00002'' ''Graph Theory'' [''ml''] 5,
           tagged_row ''2301.00003'' ''Latent diffusion'' [''Ml'', ''vision''] 5,
           tagged_row ''2301.00004'' ''Diffusion in physics'' [''physics''] 9,
           tagged_row ''2301.00005'' ''Old diffusion'' [''ml''] 2])
        (Some ''DIFFUSION'') (Some ''ML'') (Some 2)))
       = [''Latent diffusion'', ''Diffusion Models'']
   \<and> totalCount (listSavedPapers (example_env [])
        (library_of
          [tagged_row ''2301.00001'' ''Diffusion Models'' [''ML''] 5,
           tagged_row ''2301.00002'' ''Graph Theory'' [''ml''] 5,
           tagged_row ''2301.00003'' ''Latent diffusion'' [''Ml'', ''vision''] 5,
           tagged_row ''2301.00004'' ''Diffusion in physics'' [''physics''] 9,
           tagged_row ''2301.00005'' ''Old diffusion'' [''ml''] 2])
        (Some ''DIFFUSION'') (Some ''ML'') (Some 2)) = 3
   \<and> wasTruncated (listSavedPapers (example_env [])
        (library_of
          [tagged_row ''2301.00001'' ''Diffusion Models'' [''ML''] 5,
           tagged_row ''2301.00002'' ''Graph Theory'' [''ml''] 5,
           tagged_row ''2301.00003'' ''Latent diffusion'' [''Ml'', ''vision''] 5,
           tagged_row ''2301.00004'' ''Diffusion in physics'' [''physics''] 9,
           tagged_row ''2301.00005'' ''Old diffusion'' [''ml''] 2])
        (Some ''DIFFUSION'') (Some ''ML'') (Some 2))"
proof -
  let ?r1 = "tagged_row ''2301.00001'' ''Diffusion Models'' [''ML''] 5"
  let ?r2 = "tagged_row ''2301.00002'' ''Graph Theory'' [''ml''] 5"
  let ?r3 = "tagged_row ''2301.00003'' ''Latent diffusion'' [''Ml'', ''vision''] 5"
  let ?r4 = "tagged_row ''2301.00004'' ''Diffusion in physics'' [''physics''] 9"
  let ?r5 = "tagged_row ''2301.00005'' ''Old diffusion'' [''ml''] 2"
  let ?rows = "[?r1, ?r2, ?r3, ?r4, ?r5]"
  let ?ft = "Some ''DIFFUSION''"
  let ?tag = "Some ''ML''"
  have ok: "\<not> sql_throws (example_env []) SelectAll" by (simp add: example_env_def)
  have rows: "saved_papers (library_of ?rows) = ?rows" by (simp add: library_of_def)
  have o: "order_desc (example_env []) = backward_index_scan" by (simp add: example_env_def)
  have od: "orders_desc (order_desc (example_env [])) (saved_papers (library_of ?rows))"
    unfolding o by (rule backward_index_scan_orders)
  have s: "backward_index_scan ?rows = [?r4, ?r3, ?r2, ?r1, ?r5]"
    by (simp add: backward_index_scan_def tagged_row_def example_row_def)
  have m: "spec_matches ?ft ?tag ?r1" "\<not> spec_matches ?ft ?tag ?r2" "spec_matches ?ft ?tag ?r3"
      "\<not> spec_matches ?ft ?tag ?r4" "spec_matches ?ft ?tag ?r5"
    by code_simp+
  have mo: "matching_in_order (example_env []) ?ft ?tag ?rows = [?r3, ?r1, ?r5]"
    by (simp add: matching_in_order_def o s m)
  have f: "filter (spec_matches ?ft ?tag) ?rows = [?r1, ?r3, ?r5]"
    by (simp add: m)
  have t: "row_title ?r3 = ''Latent diffusion''" "row_title ?r1 = ''Diffusion Models''"
    by (simp_all add: tagged_row_def example_row_def)
  note main = list_limit_and_truncation[of 2 "example_env []" "library_of ?rows" ?ft ?tag, OF _ _ ok od]
  have "map listed_title (papers (listSavedPapers (example_env []) (library_of ?rows)
          ?ft ?tag (Some 2))) = [''Latent diffusion'', ''Diffusion Models'']"
    using main unfolding rows mo by (simp add: t)
  moreover have c: "totalCount (listSavedPapers (example_env []) (library_of ?rows)
          ?ft ?tag (Some 2)) = 3"
    using main unfolding rows f by simp
  moreover have "wasTruncated (listSavedPapers (example_env []) (library_of ?rows)
          ?ft ?tag (Some 2))"
    using main c by simp
  ultimately show ?thesis using ok od by simp
qed

section \<open>Remove: rows that are absent, titled and untitled\<close>


lemma remove_present_titled:
  assumes "select_by_id (saved_papers a) (canonical (normalizeArxivId x)) = row # rest"
    and "row_title row \<noteq> []"
    and "\<not> sql_throws e SelectTitle" "\<not> sql_throws e DeletePaper"
  shows "removeSavedPaper e a x =
           (\<lparr>remove_arxivId = canonical (normalizeArxivId x), remove_title = Some (row_title row),
             success = True, remove_error = None\<rparr>,
            updateLibraryPreview e
              (a\<lparr>saved_papers := delete_by_id (saved_papers a) (canonical (normalizeArxivId x))\<rparr>))"
  using assms by (simp add: removeSavedPaper_def Let_def truthy_def)

lemma row_title_example: "row_title (example_row i t n) = t"
  by (simp add: example_row_def)

lemma remove_untitled:
  assumes "select_by_id (saved_papers a) (canonical (normalizeArxivId x)) = row # rest"
    and "row_title row = []"
  shows "removeSavedPaper e a x =
           (\<lparr>remove_arxivId = canonical (normalizeArxivId x), remove_title = None,
             success = False,
             remove_error = Some (not_in_library_message (canonical (normalizeArxivId x)))\<rparr>, a)"
  using assms by (simp add: removeSavedPaper_def Let_def truthy_def)

text \<open>
  C2. For an id whose canonical form is stored, remove deletes the row and returns its
  title. The execution tests the looked-up title for truthiness, so a stored row whose
  title is the empty string is reported as not found and stays in the library. Such a
  row is what save stores for a feed entry whose title is white space only.
\<close>

theorem remove_leaves_untitled_row:
  "select_by_id (saved_papers (library_of [example_row ''2301.01234'' [] 7]))
       (canonical (normalizeArxivId ''2301.01234''))
     = [example_row ''2301.01234'' [] 7]
   \<and> removeSavedPaper (example_env []) (library_of [example_row ''2301.01234'' [] 7]) ''2301.01234''
     = (\<lparr>remove_arxivId = ''2301.01234'', remove_title = None, success = False,
         remove_error = Some (not_in_library_message ''2301.01234'')\<rparr>,
        library_of [example_row ''2301.01234'' [] 7])
   \<and> map row_title (saved_papers (snd (savePaper (example_env [blank_title_entry])
         (library_of []) ''2301.01234'' None))) = ['''']
   \<and> map arxiv_id (saved_papers (snd (removeSavedPaper (example_env [blank_title_entry])
         (snd (savePaper (example_env [blank_title_entry]) (library_of []) ''2301.01234'' None))
         ''2301.01234''))) = [''2301.01234'']"
proof -
  let ?lib = "library_of [example_row ''2301.01234'' [] 7]"
  let ?a0 = "snd (savePaper (example_env [blank_title_entry]) (library_of []) ''2301.01234'' None)"
  let ?row0 = "inserted_row ''2301.01234'' (paper_of blank_title_entry) [] 1700000000000"
  have c: "canonical (normalizeArxivId ''2301.01234'') = ''2301.01234''" by code_simp
  have t: "clean_text '' '' = []"
    by (simp add: clean_text_def trim_def is_white_space_def)
  have a: "select_by_id (saved_papers ?lib) (canonical (normalizeArxivId ''2301.01234''))
             = [example_row ''2301.01234'' [] 7]"
    unfolding c by (simp add: select_by_id_def library_of_def example_row_def)
  have b: "removeSavedPaper (example_env []) ?lib ''2301.01234''
     = (\<lparr>remove_arxivId = ''2301.01234'', remove_title = None, success = False,
         remove_error = Some (not_in_library_message ''2301.01234'')\<rparr>, ?lib)"
    using remove_untitled[OF a row_title_example, of "example_env []"] by (simp only: c)
  have s: "saved_papers ?a0 = [?row0]"
    by (simp add: savePaper_def c Let_def example_env_def library_of_def select_by_id_def
          fetch_paper_def fetchArxivPaperById_def feed_of_def parseArxivAtom_def
          parseEntry_def blank_title_entry_def example_entry_def truthy_def truthy_field_def
          truthy_value_def insert_row_def inserted_row_def paper_of_def)
  have ti: "row_title ?row0 = []"
    by (simp add: inserted_row_def parseEntry_def blank_title_entry_def example_entry_def
          truthy_field_def truthy_value_def paper_of_def Let_def t)
  have i0: "arxiv_id ?row0 = ''2301.01234''" by (simp add: inserted_row_def)
  have sel: "select_by_id (saved_papers ?a0) (canonical (normalizeArxivId ''2301.01234''))
               = [?row0]"
    unfolding c s using i0 by (simp add: select_by_id_def)
  have d: "snd (removeSavedPaper (example_env [blank_title_entry]) ?a0 ''2301.01234'') = ?a0"
    using remove_untitled[OF sel ti, of "example_env [blank_title_entry]"] by simp
  have "map row_title (saved_papers ?a0) = ['''']" using s ti by simp
  moreover have "map arxiv_id (saved_papers ?a0) = [''2301.01234'']" using s i0 by simp
  ultimately show ?thesis using a b d by simp
qed

section \<open>Summarize: the key of the summary cache\<close>

lemma summaryKey_inject: "summaryKey x = summaryKey y \<longleftrightarrow> x = y"
  by (simp add: summaryKey_def)

lemma summarize_other_keys:
  "k \<noteq> summaryKey x \<Longrightarrow> paper_summaries (snd (summarizePaper e a x)) k = paper_summaries a k"
  by (simp add: summarizePaper_def Let_def fetch_paper_def
        split: option.splits sum.splits arxiv_error.splits prod.splits)

lemma summarize_hit:
  assumes "\<not> sql_throws e SelectSummary" "paper_summaries a (summaryKey x) = Some row"
  shows "summarizePaper e a x =
           (\<lparr>sum_arxivId = x, sum_title = None, summaryMd = summary_md row, cached = True,
             sum_error = None\<rparr>, a)"
  using assms by (simp add: summarizePaper_def Let_def)

lemma summarize_cached_only_on_hit:
  assumes "cached (fst (summarizePaper e a x))"
  shows "\<not> sql_throws e SelectSummary \<and> paper_summaries a (summaryKey x) \<noteq> None"
  using assms
  by (auto simp: summarizePaper_def Let_def fetch_paper_def
        split: option.splits sum.splits arxiv_error.splits prod.splits if_splits)

lemma summarize_write:
  assumes "\<not> cached (fst (summarizePaper e a x))" "sum_error (fst (summarizePaper e a x)) = None"
    and "\<not> sql_throws e ReplaceSummary"
  shows "paper_summaries (snd (summarizePaper e a x)) (summaryKey x)
           = Some \<lparr>summary_md = summaryMd (fst (summarizePaper e a x)), created_at = now e\<rparr>"
  using assms
  by (auto simp: summarizePaper_def Let_def fetch_paper_def
        split: option.splits sum.splits arxiv_error.splits prod.splits if_splits)

lemma summarize_generated:
  assumes "paper_summaries a (summaryKey x) = None"
    and "fetchArxivPaperById (fetchImpl e) (xml_parse e) x = Inr (Some paper)"
    and "generateText e paper = Some text1"
    and "\<not> sql_throws e ReplaceSummary"
  shows "summarizePaper e a x =
           (\<lparr>sum_arxivId = x, sum_title = Some (title paper), summaryMd = text1,
             cached = False, sum_error = None\<rparr>,
            a\<lparr>requested := requested a @ [request_url x],
              paper_summaries := (paper_summaries a)
                (summaryKey x \<mapsto> \<lparr>summary_md = text1, created_at = now e\<rparr>)\<rparr>)"
  using assms by (simp add: summarizePaper_def Let_def fetch_paper_def)

text \<open>
  C7, as stated: the cache entry is read and written under the canonical id and the
  prompt version, so \<^verbatim>\<open>2301.01234v2\<close> and \<^verbatim>\<open>2301.01234\<close> share an entry. The
  summary of \<^verbatim>\<open>2301.01234v2\<close> is stored under the raw id; nothing is stored under
  the canonical id, and a later call for \<^verbatim>\<open>2301.01234\<close> misses the cache.
\<close>

theorem cache_key_counterexample:
  "canonical (normalizeArxivId ''2301.01234v2'') = canonical (normalizeArxivId ''2301.01234'')
   \<and> paper_summaries
        (snd (summarizePaper (example_env [two_pdf_entry]) (library_of []) ''2301.01234v2''))
        (canonical (normalizeArxivId ''2301.01234v2'') @ '':'' @ SUMMARY_PROMPT_VERSION) = None
   \<and> paper_summaries
        (snd (summarizePaper (example_env [two_pdf_entry]) (library_of []) ''2301.01234v2''))
        (''2301.01234v2'' @ '':'' @ SUMMARY_PROMPT_VERSION) \<noteq> None
   \<and> \<not> cached (fst (summarizePaper (example_env [two_pdf_entry])
        (snd (summarizePaper (example_env [two_pdf_entry]) (library_of []) ''2301.01234v2''))
        ''2301.01234''))"
proof -
  let ?e = "example_env [two_pdf_entry]"
  let ?a1 = "snd (summarizePaper ?e (library_of []) ''2301.01234v2'')"
  have c1: "canonical (normalizeArxivId ''2301.01234v2'') = ''2301.01234''" by code_simp
  have c2: "canonical (normalizeArxivId ''2301.01234'') = ''2301.01234''" by code_simp
  have g: "generateText ?e (paper_of two_pdf_entry)
             = Some (''Summary of '' @ title (paper_of two_pdf_entry))"
    by (simp add: example_env_def)
  have ok: "\<not> sql_throws ?e ReplaceSummary" by (simp add: example_env_def)
  have e0: "paper_summaries (library_of []) (summaryKey ''2301.01234v2'') = None"
    by (simp add: library_of_def)
  have s: "paper_summaries ?a1 = (paper_summaries (library_of []))
             (summaryKey ''2301.01234v2'' \<mapsto>
                \<lparr>summary_md = ''Summary of '' @ title (paper_of two_pdf_entry),
                 created_at = now ?e\<rparr>)"
    using summarize_generated[OF e0 example_fetch g ok] by simp
  have k1: "paper_summaries ?a1 (''2301.01234:v1'') = None"
    unfolding s by (simp add: summaryKey_def SUMMARY_PROMPT_VERSION_def library_of_def)
  have k2: "paper_summaries ?a1 (''2301.01234v2:v1'') \<noteq> None"
    unfolding s by (simp add: summaryKey_def SUMMARY_PROMPT_VERSION_def)
  have miss: "\<not> cached (fst (summarizePaper ?e ?a1 ''2301.01234''))"
    using summarize_cached_only_on_hit[of ?e ?a1 "''2301.01234''"] k1
    by (auto simp: summaryKey_def SUMMARY_PROMPT_VERSION_def)
  show ?thesis
    unfolding c1 c2 using k1 k2 miss by (simp add: SUMMARY_PROMPT_VERSION_def)
qed

text \<open>
  C7, amended. For every summarize call with raw input id \<open>x\<close>, the cache entry is read
  and written under the composite key made of \<open>x\<close> as given, a colon and the prompt
  version: a stored entry under that key is returned as a cache hit, a hit happens only
  for an entry under that key, no entry under another key is changed, and a freshly
  generated summary is stored under that key. Two raw ids address the same entry only
  when they are the same string.
\<close>

theorem summary_cache_key:
  "summaryKey x = x @ '':'' @ SUMMARY_PROMPT_VERSION
   \<and> (summaryKey x = summaryKey y \<longleftrightarrow> x = y)
   \<and> (\<not> sql_throws e SelectSummary \<and> paper_summaries a (summaryKey x) = Some row \<longrightarrow>
         summarizePaper e a x =
           (\<lparr>sum_arxivId = x, sum_title = None, summaryMd = summary_md row, cached = True,
             sum_error = None\<rparr>, a))
   \<and> (cached (fst (summarizePaper e a x)) \<longrightarrow>
         \<not> sql_throws e SelectSummary \<and> paper_summaries a (summaryKey x) \<noteq> None)
   \<and> (\<forall>k. k \<noteq> summaryKey x \<longrightarrow>
         paper_summaries (snd (summarizePaper e a x)) k = paper_summaries a k)
   \<and> (\<not> cached (fst (summarizePaper e a x)) \<and> sum_error (fst (summarizePaper e a x)) = None
        \<and> \<not> sql_throws e ReplaceSummary \<longrightarrow>
         paper_summaries (snd (summarizePaper e a x)) (summaryKey x)
           = Some \<lparr>summary_md = summaryMd (fst (summarizePaper e a x)), created_at = now e\<rparr>)"
proof (intro conjI impI allI)
  show "summaryKey x = x @ '':'' @ SUMMARY_PROMPT_VERSION" by (simp add: summaryKey_def)
  show "(summaryKey x = summaryKey y) = (x = y)" by (rule summaryKey_inject)
next
  assume "\<not> sql_throws e SelectSummary \<and> paper_summaries a (summaryKey x) = Some row"
  then show "summarizePaper e a x =
           (\<lparr>sum_arxivId = x, sum_title = None, summaryMd = summary_md row, cached = True,
             sum_error = None\<rparr>, a)"
    using summarize_hit[of e a x row] by simp
next
  assume c: "cached (fst (summarizePaper e a x))"
  from summarize_cached_only_on_hit[OF c]
  show "\<not> sql_throws e SelectSummary" "paper_summaries a (summaryKey x) \<noteq> None" by simp_all
next
  fix k assume "k \<noteq> summaryKey x"
  then show "paper_summaries (snd (summarizePaper e a x)) k = paper_summaries a k"
    by (rule summarize_other_keys)
next
  assume "\<not> cached (fst (summarizePaper e a x)) \<and> sum_error (fst (summarizePaper e a x)) = None
        \<and> \<not> sql_throws e ReplaceSummary"
  then show "paper_summaries (snd (summarizePaper e a x)) (summaryKey x)
           = Some \<lparr>summary_md = summaryMd (fst (summarizePaper e a x)), created_at = now e\<rparr>"
    using summarize_write[of e a x] by simp
qed

theorem summary_cache_key_witness:
  "\<not> sql_throws (example_env [two_pdf_entry]) SelectSummary
   \<and> paper_summaries
        (snd (summarizePaper (example_env [two_pdf_entry]) (library_of []) ''2301.01234v2''))
        (summaryKey ''2301.01234v2'')
       = Some \<lparr>summary_md = ''Summary of '' @ title (paper_of two_pdf_entry),
               created_at = now (example_env [two_pdf_entry])\<rparr>
   \<and> cached (fst (summarizePaper (example_env [two_pdf_entry])
        (snd (summarizePaper (example_env [two_pdf_entry]) (library_of []) ''2301.01234v2''))
        ''2301.01234v2''))
   \<and> ''2301.01234:v1'' \<noteq> summaryKey ''2301.01234v2''
   \<and> paper_summaries
        (snd (summarizePaper (example_env [two_pdf_entry]) (library_of []) ''2301.01234v2''))
        ''2301.01234:v1'' = paper_summaries (library_of []) ''2301.01234:v1''"
proof -
  let ?e = "example_env [two_pdf_entry]"
  let ?a1 = "snd (summarizePaper ?e (library_of []) ''2301.01234v2'')"
  let ?row = "\<lparr>summary_md = ''Summary of '' @ title (paper_of two_pdf_entry),
               created_at = now ?e\<rparr>"
  have g: "generateText ?e (paper_of two_pdf_entry)
             = Some (''Summary of '' @ title (paper_of two_pdf_entry))"
    by (simp add: example_env_def)
  have ok: "\<not> sql_throws ?e ReplaceSummary" "\<not> sql_throws ?e SelectSummary"
    by (simp_all add: example_env_def)
  have e0: "paper_summaries (library_of []) (summaryKey ''2301.01234v2'') = None"
    by (simp add: library_of_def)
  have s: "paper_summaries ?a1 (summaryKey ''2301.01234v2'') = Some ?row"
    using summarize_generated[OF e0 example_fetch g ok(1)] by simp
  have ne: "''2301.01234:v1'' \<noteq> summaryKey ''2301.01234v2''"
    by (simp add: summaryKey_def SUMMARY_PROMPT_VERSION_def)
  note main1 = summary_cache_key[of "''2301.01234v2''" "''2301.01234v2''" ?e ?a1 ?row]
  note main0 = summary_cache_key[of "''2301.01234v2''" "''2301.01234v2''" ?e "library_of []" ?row]
  have hit: "cached (fst (summarizePaper ?e ?a1 ''2301.01234v2''))"
    using main1 ok(2) s by simp
  have other: "paper_summaries ?a1 ''2301.01234:v1'' = paper_summaries (library_of []) ''2301.01234:v1''"
    using main0 ne by blast
  from ok(2) s hit ne other show ?thesis by (intro conjI)
qed

section \<open>Save and remove: identifiers are not validated\<close>










end
